theory Spec2Isabelle
  imports Main "HOL-Library.Multiset"
begin

section \<open>Exceptions\<close>

text \<open>
  Every \<^verbatim>\<open>raise\<close> of \<^verbatim>\<open>data_utils.py\<close> and every exception of h5py, numpy and
  pandas that the functions below can meet is a value of \<open>error\<close>; a function that can
  raise returns \<open>error + 'a\<close> with \<open>Inl\<close> for the exception. The two messages the
  module formats itself are kept with their format arguments:
  \<^verbatim>\<open>"{} not found in {}".format(key, f_h5)\<close> and
  \<^verbatim>\<open>"Columns requested {}, do not match columns in input csv {}".format(cols, csv_cols)\<close>.
  \<^verbatim>\<open>assert\<close> statements are executed (the interpreter does not run with \<^verbatim>\<open>-O\<close>).
\<close>

datatype message =
    Not_found_in string string
  | Columns_do_not_match "string list" "string list"
  | Raised_by_library

datatype error =
    ValueError message
  | AssertionError
  | KeyError string
  | IndexError
  | TypeError
  | OSError string

text \<open>A list comprehension whose elements can raise: the first exception wins.\<close>

fun collect :: "(error + 'a) list \<Rightarrow> error + 'a list" where
  "collect [] = Inr []"
| "collect (Inl e # rs) = Inl e"
| "collect (Inr x # rs) = (case collect rs of Inl e \<Rightarrow> Inl e | Inr xs \<Rightarrow> Inr (x # xs))"

section \<open>Files, handles and the event log\<close>

text \<open>
  The file system maps a path to what is stored there: an HDF5 file with its top-level
  members in enumeration order, or something that is no HDF5 file. \<open>handles\<close> are the
  file objects currently open; \<open>log\<close> records every open and close, and every dataset
  that \<^verbatim>\<open>load_h5_file\<close> reads, oldest first. A name is one path component
  (no \<^verbatim>\<open>/\<close> inside).
\<close>

datatype mode = Mode_r | Mode_w | Mode_r_plus

datatype 'f fsobj = H5 'f | NotH5

datatype event = Opened string mode | Closed string mode | Read string string

record 'f world =
  disk :: "string \<rightharpoonup> 'f fsobj"
  handles :: "(string \<times> mode) list"
  log :: "event list"

text \<open>
  \<^verbatim>\<open>h5py.File(name, mode)\<close>: \<^verbatim>\<open>'r'\<close> and \<^verbatim>\<open>'r+'\<close> need an existing HDF5 file,
  \<^verbatim>\<open>'w'\<close> creates an empty file (truncating an old one). The result is the list of
  the file's members.
\<close>

definition h5py_File :: "string \<Rightarrow> mode \<Rightarrow> 'x list world \<Rightarrow> (error + 'x list) \<times> 'x list world" where
  "h5py_File name m w =
     (case m of
        Mode_w \<Rightarrow>
          (Inr [], w\<lparr>disk := (disk w)(name \<mapsto> H5 []),
                      handles := (name, m) # handles w,
                      log := log w @ [Opened name m]\<rparr>)
      | _ \<Rightarrow>
          (case disk w name of
             Some (H5 members) \<Rightarrow>
               (Inr members, w\<lparr>handles := (name, m) # handles w,
                                log := log w @ [Opened name m]\<rparr>)
           | _ \<Rightarrow> (Inl (OSError name), w)))"

text \<open>Leaving a \<^verbatim>\<open>with h5py.File(...) as h5:\<close> block, normally or by an exception.\<close>

definition h5_close :: "string \<Rightarrow> mode \<Rightarrow> 'f world \<Rightarrow> 'f world" where
  "h5_close name m w =
     w\<lparr>handles := remove1 (name, m) (handles w), log := log w @ [Closed name m]\<rparr>"

section \<open>Groups and datasets\<close>

text \<open>
  A member of a file or group is a dataset holding an array, or a group with members of
  its own. Arrays stay abstract here (\<open>'a\<close>): no function below looks inside one.
  They are arrays of one or more dimensions, the only ones that \<^verbatim>\<open>h5[key][:]\<close> reads
  and that \<^verbatim>\<open>create_dataset\<close> compresses; h5py refuses both for a scalar.
\<close>

datatype 'a node = Dataset 'a | Group "(string \<times> 'a node) list"

type_synonym 'a members = "(string \<times> 'a node) list"

definition h5_keys :: "(string \<times> 'n) list \<Rightarrow> string list" where
  "h5_keys h5 = map fst h5"

definition h5_contains :: "(string \<times> 'n) list \<Rightarrow> string \<Rightarrow> bool" where
  "h5_contains h5 key \<longleftrightarrow> key \<in> set (h5_keys h5)"

text \<open>\<^verbatim>\<open>h5[key][:]\<close>: the array of a dataset; a group cannot be sliced.\<close>

definition h5_read :: "'a members \<Rightarrow> string \<Rightarrow> error + 'a" where
  "h5_read h5 key =
     (case map_of h5 key of
        None \<Rightarrow> Inl (KeyError key)
      | Some (Group g) \<Rightarrow> Inl TypeError
      | Some (Dataset d) \<Rightarrow> Inr d)"

text \<open>\<^verbatim>\<open>del h5[col]\<close>.\<close>

definition h5_delete :: "'a members \<Rightarrow> string \<Rightarrow> 'a members" where
  "h5_delete h5 col = filter (\<lambda>(name, n). name \<noteq> col) h5"

text \<open>
  \<^verbatim>\<open>h5.create_dataset(col, data=data, compression=compression)\<close> refuses a name that
  is taken. The compression filter is lossless and does not change what is read back.
\<close>

definition h5_create_dataset :: "'a members \<Rightarrow> string \<Rightarrow> 'a \<Rightarrow> string \<Rightarrow> error + 'a members" where
  "h5_create_dataset h5 col data compression =
     (if h5_contains h5 col then Inl (ValueError Raised_by_library)
      else Inr (h5 @ [(col, Dataset data)]))"

text \<open>
  \<^verbatim>\<open>h5.require_group(name)\<close>: the members of the group, which is created empty when
  the name is free; a dataset of that name is a \<^verbatim>\<open>TypeError\<close>. The second component
  is the file's member list afterwards.
\<close>

definition h5_require_group :: "'a members \<Rightarrow> string \<Rightarrow> error + ('a members \<times> 'a members)" where
  "h5_require_group h5 name =
     (case map_of h5 name of
        None \<Rightarrow> Inr ([], h5 @ [(name, Group [])])
      | Some (Group g) \<Rightarrow> Inr (g, h5)
      | Some (Dataset d) \<Rightarrow> Inl TypeError)"

section \<open>The grouped artifact store\<close>

subsection \<open>\<^verbatim>\<open>load_h5_file\<close>\<close>

text \<open>
  The second loop of \<^verbatim>\<open>load_h5_file\<close>:
  \<^verbatim>\<open>for key in args: data[key] = h5[key][:]\<close>, every read logged.
\<close>

fun read_keys ::
  "string \<Rightarrow> 'a members \<Rightarrow> string list \<Rightarrow> (string \<rightharpoonup> 'a) \<Rightarrow> 'f world
     \<Rightarrow> (error + (string \<rightharpoonup> 'a)) \<times> 'f world" where
  "read_keys f_h5 h5 [] data w = (Inr data, w)"
| "read_keys f_h5 h5 (key # keys) data w =
     (case h5_read h5 key of
        Inl e \<Rightarrow> (Inl e, w)
      | Inr d \<Rightarrow> read_keys f_h5 h5 keys (data(key \<mapsto> d)) (w\<lparr>log := log w @ [Read f_h5 key]\<rparr>))"

text \<open>
  \<^verbatim>\<open>
  def load_h5_file(f_h5, *args):
      data = {}
      with h5py.File(f_h5, 'r') as h5:
          if not args:
              args = h5.keys()
          for key in args:
              if key not in h5:
                  raise ValueError("{} not found in {}".format(key, f_h5))
          for key in args:
              data[key] = h5[key][:]
      return data
  \<close>
\<close>

definition load_h5_file ::
  "string \<Rightarrow> string list \<Rightarrow> 'a members world \<Rightarrow> (error + (string \<rightharpoonup> 'a)) \<times> 'a members world" where
  "load_h5_file f_h5 args w =
     (case h5py_File f_h5 Mode_r w of
        (Inl e, w1) \<Rightarrow> (Inl e, w1)
      | (Inr h5, w1) \<Rightarrow>
          (let args' = (if args = [] then h5_keys h5 else args);
               (result, w2) =
                 (case find (\<lambda>key. \<not> h5_contains h5 key) args' of
                    Some key \<Rightarrow> (Inl (ValueError (Not_found_in key f_h5)), w1)
                  | None \<Rightarrow> read_keys f_h5 h5 args' Map.empty w1)
           in (result, h5_close f_h5 Mode_r w2)))"

subsection \<open>\<^verbatim>\<open>touch_h5\<close>, \<^verbatim>\<open>get_h5save_object\<close>, \<^verbatim>\<open>save_h5\<close>, \<^verbatim>\<open>get_score_methods\<close>\<close>

text \<open>
  \<^verbatim>\<open>
  def touch_h5(f_db):
      if not os.path.exists(f_db):
          h5 = h5py.File(f_db, 'w')
      else:
          h5 = h5py.File(f_db, 'r+')
      return h5
  \<close>
\<close>

definition touch_h5 :: "string \<Rightarrow> 'x list world \<Rightarrow> (error + 'x list) \<times> 'x list world" where
  "touch_h5 f_db w =
     (if disk w f_db = None then h5py_File f_db Mode_w w
      else h5py_File f_db Mode_r_plus w)"

text \<open>
  \<^verbatim>\<open>
  def get_h5save_object(f_db, method):
      h5 = touch_h5(f_db)
      g = h5.require_group(method)
      return g
  \<close>
  A group created by \<^verbatim>\<open>require_group\<close> is written to the file.
\<close>

definition get_h5save_object ::
  "string \<Rightarrow> string \<Rightarrow> 'a members world \<Rightarrow> (error + 'a members) \<times> 'a members world" where
  "get_h5save_object f_db method w =
     (case touch_h5 f_db w of
        (Inl e, w1) \<Rightarrow> (Inl e, w1)
      | (Inr h5, w1) \<Rightarrow>
          (case h5_require_group h5 method of
             Inl e \<Rightarrow> (Inl e, w1)
           | Inr (g, h5') \<Rightarrow> (Inr g, w1\<lparr>disk := (disk w1)(f_db \<mapsto> H5 h5')\<rparr>)))"

text \<open>
  \<^verbatim>\<open>
  def save_h5(h5, col, data, compression="gzip"):
      if col in h5:
          del h5[col]
      return h5.create_dataset(col, data=data, compression=compression)
  \<close>
  The \<^verbatim>\<open>h5\<close> object is mutated in place; the model returns its members afterwards.
\<close>

definition save_h5 :: "'a members \<Rightarrow> string \<Rightarrow> 'a \<Rightarrow> string \<Rightarrow> error + 'a members" where
  "save_h5 h5 col data compression =
     (let h5' = (if h5_contains h5 col then h5_delete h5 col else h5)
      in h5_create_dataset h5' col data compression)"

text \<open>
  \<^verbatim>\<open>
  def get_score_methods():
      ...
      with h5py.File(f_h5, 'r') as h5:
          return h5.keys()
  \<close>
  The path \<^verbatim>\<open>f_h5\<close> comes from the configuration and is a parameter here.
\<close>

definition get_score_methods ::
  "string \<Rightarrow> (string \<times> 'n) list world \<Rightarrow> (error + string list) \<times> (string \<times> 'n) list world" where
  "get_score_methods f_h5 w =
     (case h5py_File f_h5 Mode_r w of
        (Inl e, w1) \<Rightarrow> (Inl e, w1)
      | (Inr h5, w1) \<Rightarrow> (Inr (h5_keys h5), h5_close f_h5 Mode_r w1))"

section \<open>numpy\<close>

text \<open>
  A one-dimensional array is a list. A two-dimensional array has a number of columns
  and a list of rows (\<^verbatim>\<open>X.shape == (length rows, ncols)\<close>); the number of columns is
  kept apart because an array without rows still has a width.
\<close>

datatype 'v array2 = Array2 (ncols: nat) (arows: "'v list list")

text \<open>\<^verbatim>\<open>X.shape[0]\<close>.\<close>

definition nrows :: "'v array2 \<Rightarrow> nat" where
  "nrows X = length (arows X)"

text \<open>
  \<^verbatim>\<open>np.hstack\<close> of one-dimensional arrays joins them end to end; numpy refuses an
  empty sequence (\<^verbatim>\<open>ValueError: need at least one array to concatenate\<close>).
\<close>

definition np_hstack :: "'r list list \<Rightarrow> error + 'r list" where
  "np_hstack tup = (if tup = [] then Inl (ValueError Raised_by_library) else Inr (concat tup))"

text \<open>
  \<^verbatim>\<open>np.vstack\<close> of two-dimensional arrays puts their rows under each other; numpy
  refuses an empty sequence and arrays of different widths.
\<close>

definition np_vstack :: "'v array2 list \<Rightarrow> error + 'v array2" where
  "np_vstack tup =
     (case tup of
        [] \<Rightarrow> Inl (ValueError Raised_by_library)
      | A # As \<Rightarrow>
          (if list_all (\<lambda>B. ncols B = ncols A) As
           then Inr (Array2 (ncols A) (concat (map arows tup)))
           else Inl (ValueError Raised_by_library)))"

text \<open>
  \<^verbatim>\<open>np.vstack\<close> makes every element of its argument two-dimensional first
  (\<^verbatim>\<open>atleast_2d\<close>): a one-dimensional array of length \<open>n\<close> becomes one row of width \<open>n\<close>.
  Iterating over a two-dimensional array yields its rows.
\<close>

definition atleast_2d :: "'v list \<Rightarrow> 'v array2" where
  "atleast_2d r = Array2 (length r) [r]"

text \<open>
  Indexing with an integer array, \<^verbatim>\<open>a[idx]\<close>: the elements (rows) at the given
  positions, an \<^verbatim>\<open>IndexError\<close> for a position out of range.
\<close>

definition np_take :: "'a list \<Rightarrow> nat list \<Rightarrow> error + 'a list" where
  "np_take a idx =
     (if list_all (\<lambda>i. i < length a) idx then Inr (map (\<lambda>i. a ! i) idx) else Inl IndexError)"

text \<open>
  \<^verbatim>\<open>np.argsort\<close> is called without \<^verbatim>\<open>kind\<close>, so numpy runs its default sort, which
  need not keep equal keys in their input order and whose choice among equal keys depends
  on the numpy build. The functions below therefore take \<^verbatim>\<open>argsort\<close> as a
  parameter. What numpy promises for it: the result is a permutation of the positions
  that lists the keys in ascending order.
\<close>

definition argsort_ok :: "('k::linorder list \<Rightarrow> nat list) \<Rightarrow> bool" where
  "argsort_ok argsort \<longleftrightarrow>
     (\<forall>a. mset (argsort a) = mset [0..<length a] \<and> sorted (map (\<lambda>i. a ! i) (argsort a)))"

text \<open>
  Two sorts that keep this promise: one lists equal keys in input order (a stable
  sort), one lists them in reverse input order.
\<close>

definition argsort_stable :: "'k::linorder list \<Rightarrow> nat list" where
  "argsort_stable a = map snd (sort_key fst (zip a [0..<length a]))"

definition argsort_reversing :: "'k::linorder list \<Rightarrow> nat list" where
  "argsort_reversing a = map snd (sort_key fst (rev (zip a [0..<length a])))"

section \<open>The document vector assembler\<close>

text \<open>
  The score file has one group per score method, and in it one group per shard. A shard
  holds the datasets \<^verbatim>\<open>_ref\<close> (one-dimensional), \<^verbatim>\<open>V\<close> and \<^verbatim>\<open>VX\<close>
  (two-dimensional); each may be missing.
\<close>

record ('r, 'v) shard =
  ds_ref :: "'r list option"
  ds_V :: "'v array2 option"
  ds_VX :: "'v array2 option"

type_synonym ('r, 'v) score_file = "(string \<times> (string \<times> ('r, 'v) shard) list) list"

text \<open>\<^verbatim>\<open>g[k][name][:]\<close> for a dataset that may be missing.\<close>

definition h5_dataset :: "string \<Rightarrow> 'd option \<Rightarrow> error + 'd" where
  "h5_dataset name d = (case d of None \<Rightarrow> Inl (KeyError name) | Some x \<Rightarrow> Inr x)"

definition vector_dataset :: "string \<Rightarrow> ('r, 'v) shard \<Rightarrow> 'v array2 option" where
  "vector_dataset vector_key sh = (if vector_key = ''VX'' then ds_VX sh else ds_V sh)"

definition shard_vectors :: "string \<Rightarrow> ('r, 'v) shard \<Rightarrow> error + 'v array2" where
  "shard_vectors vector_key sh = h5_dataset vector_key (vector_dataset vector_key sh)"

text \<open>\<^verbatim>\<open>np.hstack([g[k]["_ref"][:] for k in g.keys()])\<close>.\<close>

definition hstack_refs :: "(string \<times> ('r, 'v) shard) list \<Rightarrow> error + 'r list" where
  "hstack_refs g =
     (case collect (map (\<lambda>(k, sh). h5_dataset ''_ref'' (ds_ref sh)) g) of
        Inl e \<Rightarrow> Inl e
      | Inr parts \<Rightarrow> np_hstack parts)"

text \<open>\<^verbatim>\<open>np.vstack([g[k][vector_key][:] for k in g.keys()])\<close>.\<close>

definition vstack_vectors :: "string \<Rightarrow> (string \<times> ('r, 'v) shard) list \<Rightarrow> error + 'v array2" where
  "vstack_vectors vector_key g =
     (case collect (map (\<lambda>(k, sh). shard_vectors vector_key sh) g) of
        Inl e \<Rightarrow> Inl e
      | Inr parts \<Rightarrow> np_vstack parts)"

record ('r, 'v) document_vectors =
  docv :: "'v array2"
  refs :: "'r list"

text \<open>
  The body of the \<^verbatim>\<open>with\<close> block and the returned dictionary:
  \<^verbatim>\<open>
      assert(score_method in h5)
      g = h5[score_method]
      _refs = np.hstack([g[k]["_ref"][:] for k in g.keys()])
      vector_key = "VX" if use_reduced else "V"
      X = np.vstack([g[k][vector_key][:] for k in g.keys()])
      assert(X.shape[0] == _refs.size)
      sort_idx = np.argsort(_refs)
      _refs = _refs[sort_idx]
      X = np.vstack(X)[sort_idx]
  return {"docv": X, "_refs": _refs}
  \<close>
\<close>

definition assemble ::
  "('r::linorder list \<Rightarrow> nat list) \<Rightarrow> ('r, 'v) score_file \<Rightarrow> string \<Rightarrow> bool
     \<Rightarrow> error + ('r, 'v) document_vectors" where
  "assemble argsort h5 score_method use_reduced =
     (case map_of h5 score_method of
        None \<Rightarrow> Inl AssertionError
      | Some g \<Rightarrow>
     (case hstack_refs g of
        Inl e \<Rightarrow> Inl e
      | Inr refs0 \<Rightarrow>
     (let vector_key = (if use_reduced then ''VX'' else ''V'') in
     (case vstack_vectors vector_key g of
        Inl e \<Rightarrow> Inl e
      | Inr X \<Rightarrow>
     (if nrows X \<noteq> length refs0 then Inl AssertionError
      else
     (let sort_idx = argsort refs0 in
     (case np_take refs0 sort_idx of
        Inl e \<Rightarrow> Inl e
      | Inr refs1 \<Rightarrow>
     (case np_vstack (map atleast_2d (arows X)) of
        Inl e \<Rightarrow> Inl e
      | Inr X1 \<Rightarrow>
     (case np_take (arows X1) sort_idx of
        Inl e \<Rightarrow> Inl e
      | Inr rows1 \<Rightarrow> Inr \<lparr>docv = Array2 (ncols X1) rows1, refs = refs1\<rparr>)))))))))"

text \<open>
  \<^verbatim>\<open>load_document_vectors(score_method, use_reduced=False)\<close>: the file is opened
  read-only for the \<^verbatim>\<open>with\<close> block and closed when the block is left. The path
  \<^verbatim>\<open>f_h5\<close> comes from the configuration and is a parameter here.
\<close>

definition load_document_vectors ::
  "('r::linorder list \<Rightarrow> nat list) \<Rightarrow> string \<Rightarrow> string \<Rightarrow> bool \<Rightarrow> ('r, 'v) score_file world
     \<Rightarrow> (error + ('r, 'v) document_vectors) \<times> ('r, 'v) score_file world" where
  "load_document_vectors argsort f_h5 score_method use_reduced w =
     (case h5py_File f_h5 Mode_r w of
        (Inl e, w1) \<Rightarrow> (Inl e, w1)
      | (Inr h5, w1) \<Rightarrow>
          (assemble argsort h5 score_method use_reduced, h5_close f_h5 Mode_r w1))"

section \<open>pandas and joblib\<close>

text \<open>
  A CSV file after tokenising: the column names pandas reads from its header line, from
  left to right (pandas numbers a name that repeats, so they differ from each other), and
  its records, each a partial map from column name to cell (an empty field is an absent
  key).
  All cells have one type \<open>'a\<close> with a linear order, the order \<^verbatim>\<open>sort_values\<close>
  compares the \<^verbatim>\<open>_ref\<close> cells by.
\<close>

record 'a csv =
  csv_header :: "string list"
  csv_records :: "(string \<rightharpoonup> 'a) list"

text \<open>
  A data frame: its column labels from left to right, the name of its index, and its
  rows in order, each an index label with the row's cells by column label (an absent key
  is \<^verbatim>\<open>NaN\<close>).
\<close>

record ('i, 'a) dataframe =
  df_columns :: "string list"
  df_index_name :: "string option"
  df_rows :: "('i \<times> (string \<rightharpoonup> 'a)) list"

text \<open>
  \<^verbatim>\<open>pd.read_csv(f, usecols=cols)\<close>: the requested columns of every record under a
  fresh index \<open>0, 1, \<dots>\<close>, the columns in the order of the file's header (the order
  of \<^verbatim>\<open>usecols\<close> is ignored); a \<^verbatim>\<open>ValueError\<close> when a requested column is not
  in the header; the error of \<^verbatim>\<open>open\<close> when there is no such file.
\<close>

definition pd_read_csv :: "(string \<rightharpoonup> 'a csv) \<Rightarrow> string \<Rightarrow> string list \<Rightarrow> error + (nat, 'a) dataframe" where
  "pd_read_csv fs f usecols =
     (case fs f of
        None \<Rightarrow> Inl (OSError f)
      | Some c \<Rightarrow>
          (if list_all (\<lambda>col. col \<in> set (csv_header c)) usecols
           then Inr \<lparr>df_columns = filter (\<lambda>col. col \<in> set usecols) (csv_header c),
                     df_index_name = None,
                     df_rows = enumerate 0 (map (\<lambda>r. r |` set usecols) (csv_records c))\<rparr>
           else Inl (ValueError Raised_by_library)))"

text \<open>\<^verbatim>\<open>pd.read_csv(f, nrows=0).columns\<close>: the header alone.\<close>

definition pd_read_csv_columns :: "(string \<rightharpoonup> 'a csv) \<Rightarrow> string \<Rightarrow> error + string list" where
  "pd_read_csv_columns fs f =
     (case fs f of None \<Rightarrow> Inl (OSError f) | Some c \<Rightarrow> Inr (csv_header c))"

text \<open>
  \<^verbatim>\<open>
  def simple_CSV_read(f, cols):
      try:
          dfx = pd.read_csv(f, usecols=cols)
      except ValueError:
          csv_cols = pd.read_csv(f, nrows=0).columns
          msg = "Columns requested {}, do not match columns in input csv {}"
          raise ValueError(msg.format(cols, csv_cols))
      return dfx
  \<close>
\<close>

definition simple_CSV_read :: "(string \<rightharpoonup> 'a csv) \<Rightarrow> string \<Rightarrow> string list \<Rightarrow> error + (nat, 'a) dataframe" where
  "simple_CSV_read fs f cols =
     (case pd_read_csv fs f cols of
        Inl (ValueError msg) \<Rightarrow>
          (case pd_read_csv_columns fs f of
             Inl e \<Rightarrow> Inl e
           | Inr csv_cols \<Rightarrow> Inl (ValueError (Columns_do_not_match cols csv_cols)))
      | Inl e \<Rightarrow> Inl e
      | Inr dfx \<Rightarrow> Inr dfx)"

text \<open>
  \<^verbatim>\<open>joblib.Parallel(n_jobs)(delayed(func)(x) for x in xs)\<close> returns the results in
  the order of the tasks, whatever the number of workers, and raises what a task raised.
\<close>

definition joblib_Parallel :: "int \<Rightarrow> ('x \<Rightarrow> error + 'y) \<Rightarrow> 'x list \<Rightarrow> error + 'y list" where
  "joblib_Parallel n_jobs func xs = collect (map func xs)"

text \<open>
  \<^verbatim>\<open>pd.concat(frames)\<close> puts the rows of the frames under each other, each row with
  the label it had; pandas refuses an empty list (\<^verbatim>\<open>No objects to concatenate\<close>).
  The columns of the result are the column labels of the frames in the order in which
  they first appear, so those of the first frame come first, in its order (pandas, since
  release 1.0, joins the labels with \<^verbatim>\<open>sort=False\<close>).
\<close>

fun union_indexes :: "string list list \<Rightarrow> string list" where
  "union_indexes [] = []"
| "union_indexes (cs # css) = cs @ filter (\<lambda>c. c \<notin> set cs) (union_indexes css)"

definition pd_concat :: "('i, 'a) dataframe list \<Rightarrow> error + ('i, 'a) dataframe" where
  "pd_concat frames =
     (if frames = [] then Inl (ValueError Raised_by_library)
      else Inr \<lparr>df_columns = union_indexes (map df_columns frames), df_index_name = None,
                df_rows = concat (map df_rows frames)\<rparr>)"

text \<open>
  pandas sorts one column with \<^verbatim>\<open>nargsort\<close>: the positions of the cells that are
  not \<^verbatim>\<open>NaN\<close>, rearranged by \<^verbatim>\<open>argsort\<close> of those cells (numpy's default kind,
  as \<^verbatim>\<open>sort_values\<close> is called without \<^verbatim>\<open>kind\<close>), then the positions of the
  \<^verbatim>\<open>NaN\<close> cells (\<^verbatim>\<open>na_position='last'\<close>).
\<close>

definition nargsort :: "('a::linorder list \<Rightarrow> nat list) \<Rightarrow> 'a option list \<Rightarrow> error + nat list" where
  "nargsort argsort items =
     (let idx = [0..<length items];
          non_nans = map the (filter (\<lambda>x. x \<noteq> None) items);
          non_nan_idx = filter (\<lambda>i. items ! i \<noteq> None) idx;
          nan_idx = filter (\<lambda>i. items ! i = None) idx
      in case np_take non_nan_idx (argsort non_nans) of
           Inl e \<Rightarrow> Inl e
         | Inr indexer \<Rightarrow> Inr (indexer @ nan_idx))"

text \<open>\<^verbatim>\<open>df.sort_values(by)\<close>: the rows, labels included, taken in the order of \<^verbatim>\<open>nargsort\<close>.\<close>

definition sort_values ::
  "('a::linorder list \<Rightarrow> nat list) \<Rightarrow> string \<Rightarrow> ('i, 'a) dataframe \<Rightarrow> error + ('i, 'a) dataframe" where
  "sort_values argsort by df =
     (if by \<notin> set (df_columns df) then Inl (KeyError by)
      else
        (case nargsort argsort (map (\<lambda>(i, r). r by) (df_rows df)) of
           Inl e \<Rightarrow> Inl e
         | Inr indexer \<Rightarrow>
             (case np_take (df_rows df) indexer of
                Inl e \<Rightarrow> Inl e
              | Inr rs \<Rightarrow> Inr (df\<lparr>df_rows := rs\<rparr>))))"

text \<open>\<^verbatim>\<open>df.set_index(keys)\<close>: the column becomes the index and is dropped from the columns.\<close>

definition set_index :: "string \<Rightarrow> ('i, 'a) dataframe \<Rightarrow> error + ('a option, 'a) dataframe" where
  "set_index keys df =
     (if keys \<notin> set (df_columns df) then Inl (KeyError keys)
      else Inr \<lparr>df_columns = filter (\<lambda>c. c \<noteq> keys) (df_columns df), df_index_name = Some keys,
                df_rows = map (\<lambda>(i, r). (r keys, r(keys := None))) (df_rows df)\<rparr>)"

text \<open>
  \<^verbatim>\<open>df[col] = df.index\<close>: a column holding every row's index label; a column that
  is new is added after the others.
\<close>

definition setitem_index :: "string \<Rightarrow> ('a option, 'a) dataframe \<Rightarrow> ('a option, 'a) dataframe" where
  "setitem_index col df =
     df\<lparr>df_columns := (if col \<in> set (df_columns df) then df_columns df else df_columns df @ [col]),
        df_rows := map (\<lambda>(i, r). (i, r(col := i))) (df_rows df)\<rparr>"

section \<open>The keyed table loader\<close>

text \<open>
  \<^verbatim>\<open>
  def load_ORG_data(extra_columns=None):
      cols = ["_ref", ]
      if extra_columns is not None:
          cols += extra_columns
      config = simple_config.load()
      config_import = config["import_data"]
      CORES = -1 if config["_PARALLEL"] else 1
      F_CSV = grab_files("*.csv", config_import["output_data_directory"])
      with joblib.Parallel(CORES) as MP:
          func = joblib.delayed(simple_CSV_read)
          data = MP(func(x, cols) for x in F_CSV)
      df = pd.concat(data).sort_values('_ref').set_index('_ref')
      df['_ref'] = df.index
      return df
  \<close>
  The configuration and \<^verbatim>\<open>grab_files\<close> are not part of this module: the value of
  \<^verbatim>\<open>config["_PARALLEL"]\<close>, the list of files that \<^verbatim>\<open>grab_files\<close> returns and
  the file system are parameters.
\<close>

definition load_ORG_data ::
  "('a::linorder list \<Rightarrow> nat list) \<Rightarrow> bool \<Rightarrow> string list \<Rightarrow> (string \<rightharpoonup> 'a csv)
     \<Rightarrow> string list option \<Rightarrow> error + ('a option, 'a) dataframe" where
  "load_ORG_data argsort PARALLEL F_CSV fs extra_columns =
     (let cols = ''_ref'' # (case extra_columns of None \<Rightarrow> [] | Some ec \<Rightarrow> ec);
          CORES = (if PARALLEL then - 1 else 1)
      in
     (case joblib_Parallel CORES (\<lambda>x. simple_CSV_read fs x cols) F_CSV of
        Inl e \<Rightarrow> Inl e
      | Inr data \<Rightarrow>
     (case pd_concat data of
        Inl e \<Rightarrow> Inl e
      | Inr df0 \<Rightarrow>
     (case sort_values argsort ''_ref'' df0 of
        Inl e \<Rightarrow> Inl e
      | Inr df1 \<Rightarrow>
     (case set_index ''_ref'' df1 of
        Inl e \<Rightarrow> Inl e
      | Inr df2 \<Rightarrow> Inr (setitem_index ''_ref'' df2))))))"


section \<open>Vocabulary for the properties of the store\<close>

text \<open>The array stored under a name, for a name that is a dataset.\<close>

definition dataset_of :: "'a members \<Rightarrow> string \<rightharpoonup> 'a" where
  "dataset_of h5 key = (case map_of h5 key of Some (Dataset d) \<Rightarrow> Some d | _ \<Rightarrow> None)"

section \<open>Vocabulary for the properties of the assembler\<close>

text \<open>
  The reference ids a group of shards stores, in enumeration order, and the pairs of a
  reference id and the vector row stored alongside it (the \<open>i\<close>-th element of a shard's
  \<^verbatim>\<open>_ref\<close> with the \<open>i\<close>-th row of its vector dataset).
\<close>

definition stored_refs :: "(string \<times> ('r, 'v) shard) list \<Rightarrow> 'r list" where
  "stored_refs g = concat (map (\<lambda>(k, sh). case ds_ref sh of None \<Rightarrow> [] | Some r \<Rightarrow> r) g)"

definition shard_pairs :: "string \<Rightarrow> ('r, 'v) shard \<Rightarrow> ('r \<times> 'v list) list" where
  "shard_pairs vector_key sh =
     (case (ds_ref sh, vector_dataset vector_key sh) of
        (Some r, Some V) \<Rightarrow> zip r (arows V)
      | _ \<Rightarrow> [])"

definition stored_pairs :: "string \<Rightarrow> (string \<times> ('r, 'v) shard) list \<Rightarrow> ('r \<times> 'v list) list" where
  "stored_pairs vector_key g = concat (map (\<lambda>(k, sh). shard_pairs vector_key sh) g)"

text \<open>
  The shard invariant of the data model: a shard holds both datasets, the vector dataset
  has one row per reference id, and it is a rectangular array.
\<close>

definition shard_ok :: "string \<Rightarrow> ('r, 'v) shard \<Rightarrow> bool" where
  "shard_ok vector_key sh =
     (case (ds_ref sh, vector_dataset vector_key sh) of
        (Some r, Some V) \<Rightarrow>
          nrows V = length r \<and> list_all (\<lambda>row. length row = ncols V) (arows V)
      | _ \<Rightarrow> False)"

text \<open>The weaker half of it: where both datasets exist, they have the same number of rows.\<close>

definition shard_aligned :: "string \<Rightarrow> ('r, 'v) shard \<Rightarrow> bool" where
  "shard_aligned vector_key sh =
     (case (ds_ref sh, vector_dataset vector_key sh) of
        (Some r, Some V) \<Rightarrow> nrows V = length r
      | _ \<Rightarrow> True)"

definition stored_rows :: "string \<Rightarrow> (string \<times> ('r, 'v) shard) list \<Rightarrow> 'v list list" where
  "stored_rows vector_key g =
     concat (map (\<lambda>(k, sh). case vector_dataset vector_key sh of None \<Rightarrow> [] | Some V \<Rightarrow> arows V) g)"

text \<open>All shards of a group give their vector datasets the same number of columns.\<close>

definition same_width :: "string \<Rightarrow> (string \<times> ('r, 'v) shard) list \<Rightarrow> bool" where
  "same_width vector_key g =
     list_all (\<lambda>(k, sh). list_all (\<lambda>(k', sh').
         map_option ncols (vector_dataset vector_key sh')
           = map_option ncols (vector_dataset vector_key sh)) g) g"

text \<open>
  What the assembler returns once every check has passed: one index array,
  \<^verbatim>\<open>sort_idx = argsort(_refs)\<close>, selects from the stacked reference array and from
  the stacked rows.
\<close>

definition assembled ::
  "('r::linorder list \<Rightarrow> nat list) \<Rightarrow> 'r list \<Rightarrow> 'v list list \<Rightarrow> ('r, 'v) document_vectors" where
  "assembled srt rfs rws =
     \<lparr>docv = Array2 (length (hd rws)) (map (\<lambda>i. rws ! i) (srt rfs)),
      refs = map (\<lambda>i. rfs ! i) (srt rfs)\<rparr>"


section \<open>Vocabulary for the properties of the table loader\<close>

text \<open>The columns \<^verbatim>\<open>load_ORG_data\<close> asks every file for.\<close>

definition read_columns :: "string list option \<Rightarrow> string list" where
  "read_columns extra_columns = ''_ref'' # (case extra_columns of None \<Rightarrow> [] | Some ec \<Rightarrow> ec)"

text \<open>A file that exists and has every requested column in its header.\<close>

definition file_ok :: "(string \<rightharpoonup> 'a csv) \<Rightarrow> string list \<Rightarrow> string \<Rightarrow> bool" where
  "file_ok fs cols f =
     (case fs f of None \<Rightarrow> False | Some c \<Rightarrow> list_all (\<lambda>col. col \<in> set (csv_header c)) cols)"

text \<open>
  The records of a file cut down to the requested columns, and those of a list of files,
  in enumeration order.
\<close>

definition file_records :: "(string \<rightharpoonup> 'a csv) \<Rightarrow> string list \<Rightarrow> string \<Rightarrow> (string \<rightharpoonup> 'a) list" where
  "file_records fs cols f =
     (case fs f of None \<Rightarrow> [] | Some c \<Rightarrow> map (\<lambda>r. r |` set cols) (csv_records c))"

definition stored_records :: "(string \<rightharpoonup> 'a csv) \<Rightarrow> string list \<Rightarrow> string list \<Rightarrow> (string \<rightharpoonup> 'a) list" where
  "stored_records fs cols F = concat (map (file_records fs cols) F)"

text \<open>
  The requested columns of a file in the order of its header, and the columns of the
  table loaded from a list of files: the payload columns in the order of the first file,
  then \<^verbatim>\<open>_ref\<close>.
\<close>

definition file_columns :: "(string \<rightharpoonup> 'a csv) \<Rightarrow> string list \<Rightarrow> string \<Rightarrow> string list" where
  "file_columns fs cols f =
     (case fs f of None \<Rightarrow> [] | Some c \<Rightarrow> filter (\<lambda>col. col \<in> set cols) (csv_header c))"

definition table_columns :: "(string \<rightharpoonup> 'a csv) \<Rightarrow> string list \<Rightarrow> string list \<Rightarrow> string list" where
  "table_columns fs cols F =
     (case F of
        [] \<Rightarrow> []
      | f # rest \<Rightarrow> filter (\<lambda>c. c \<noteq> ''_ref'') (file_columns fs cols f) @ [''_ref''])"

text \<open>The \<^verbatim>\<open>_ref\<close> cell of a record, and the record as a row under that label.\<close>

definition ref_of :: "(string \<rightharpoonup> 'a) \<Rightarrow> 'a option" where
  "ref_of r = r ''_ref''"

definition keyed :: "(string \<rightharpoonup> 'a) \<Rightarrow> 'a option \<times> (string \<rightharpoonup> 'a)" where
  "keyed r = (ref_of r, r)"

text \<open>
  The order \<^verbatim>\<open>sort_values('_ref')\<close> gives a list of records: the records that
  have a \<^verbatim>\<open>_ref\<close>, rearranged by \<^verbatim>\<open>argsort\<close> of their \<^verbatim>\<open>_ref\<close> cells, then
  the records without one.
\<close>

definition sorted_records ::
  "('a::linorder list \<Rightarrow> nat list) \<Rightarrow> (string \<rightharpoonup> 'a) list \<Rightarrow> (string \<rightharpoonup> 'a) list" where
  "sorted_records srt recs =
     (let with_ref = filter (\<lambda>r. ref_of r \<noteq> None) recs
      in map (\<lambda>i. with_ref ! i) (srt (map (\<lambda>r. the (ref_of r)) with_ref))
         @ filter (\<lambda>r. ref_of r = None) recs)"

text \<open>
  A list of index labels is in ascending order with \<^verbatim>\<open>NaN\<close> last: the labels before
  the first \<^verbatim>\<open>NaN\<close> ascend, and only \<^verbatim>\<open>NaN\<close> follows.
\<close>

definition ascending_nan_last :: "'a::linorder option list \<Rightarrow> bool" where
  "ascending_nan_last ks \<longleftrightarrow>
     sorted (map the (takeWhile (\<lambda>k. k \<noteq> None) ks)) \<and>
     list_all (\<lambda>k. k = None) (dropWhile (\<lambda>k. k \<noteq> None) ks)"


section \<open>Example data\<close>

text \<open>
  A score file with two shards written in the order \<open>a\<close>, \<open>b\<close>, whose reference ids
  interleave, and a shard whose vector dataset is one row short.
\<close>

definition shard_a :: "(int, int) shard" where
  "shard_a = \<lparr>ds_ref = Some [3, 1],
              ds_V = Some (Array2 2 [[30, 31], [10, 11]]),
              ds_VX = Some (Array2 1 [[3], [1]])\<rparr>"

definition shard_b :: "(int, int) shard" where
  "shard_b = \<lparr>ds_ref = Some [2],
              ds_V = Some (Array2 2 [[20, 21]]),
              ds_VX = Some (Array2 1 [[2]])\<rparr>"

definition shard_short :: "(int, int) shard" where
  "shard_short = \<lparr>ds_ref = Some [5, 4],
                  ds_V = Some (Array2 2 [[50, 51]]),
                  ds_VX = None\<rparr>"

text \<open>A shard that holds no document: both datasets are there, with no rows.\<close>

definition shard_empty :: "(int, int) shard" where
  "shard_empty = \<lparr>ds_ref = Some [], ds_V = Some (Array2 2 []), ds_VX = Some (Array2 1 [])\<rparr>"

definition score_world :: "(string \<times> (int, int) shard) list \<Rightarrow> (int, int) score_file world" where
  "score_world g = \<lparr>disk = [''score.h5'' \<mapsto> H5 [(''unigram'', g)]], handles = [], log = []\<rparr>"

text \<open>
  The three shard files of the end-to-end scenario, each with the payload column \<open>x\<close>,
  and two files that both hold the reference id 7.
\<close>

definition csv_a :: "int csv" where
  "csv_a = \<lparr>csv_header = [''_ref'', ''x''],
            csv_records = [[''_ref'' \<mapsto> 3, ''x'' \<mapsto> 30], [''_ref'' \<mapsto> 1, ''x'' \<mapsto> 10]]\<rparr>"

definition csv_b :: "int csv" where
  "csv_b = \<lparr>csv_header = [''_ref'', ''x''], csv_records = [[''_ref'' \<mapsto> 2, ''x'' \<mapsto> 20]]\<rparr>"

definition csv_c :: "int csv" where
  "csv_c = \<lparr>csv_header = [''_ref'', ''x''], csv_records = [[''_ref'' \<mapsto> 4, ''x'' \<mapsto> 40]]\<rparr>"

definition csv_p :: "int csv" where
  "csv_p = \<lparr>csv_header = [''_ref'', ''x''], csv_records = [[''_ref'' \<mapsto> 7, ''x'' \<mapsto> 71]]\<rparr>"

definition csv_q :: "int csv" where
  "csv_q = \<lparr>csv_header = [''_ref'', ''x''], csv_records = [[''_ref'' \<mapsto> 7, ''x'' \<mapsto> 72]]\<rparr>"

definition csv_files :: "string \<rightharpoonup> int csv" where
  "csv_files = [''a.csv'' \<mapsto> csv_a, ''b.csv'' \<mapsto> csv_b, ''c.csv'' \<mapsto> csv_c,
                ''p.csv'' \<mapsto> csv_p, ''q.csv'' \<mapsto> csv_q]"

text \<open>
  Two files with the same columns, \<open>_ref\<close>, \<open>x\<close> and \<open>y\<close>, whose header lines list
  the payload columns in different order.
\<close>

definition csv_xy :: "int csv" where
  "csv_xy = \<lparr>csv_header = [''_ref'', ''x'', ''y''],
             csv_records = [[''_ref'' \<mapsto> 1, ''x'' \<mapsto> 10, ''y'' \<mapsto> 11]]\<rparr>"

definition csv_yx :: "int csv" where
  "csv_yx = \<lparr>csv_header = [''_ref'', ''y'', ''x''],
             csv_records = [[''_ref'' \<mapsto> 2, ''x'' \<mapsto> 20, ''y'' \<mapsto> 21]]\<rparr>"

definition csv_column_files :: "string \<rightharpoonup> int csv" where
  "csv_column_files = [''xy.csv'' \<mapsto> csv_xy, ''yx.csv'' \<mapsto> csv_yx]"

text \<open>Two shards that both hold the reference id 7.\<close>

definition shard_p :: "(int, int) shard" where
  "shard_p = \<lparr>ds_ref = Some [7], ds_V = Some (Array2 1 [[71]]), ds_VX = None\<rparr>"

definition shard_q :: "(int, int) shard" where
  "shard_q = \<lparr>ds_ref = Some [7], ds_V = Some (Array2 1 [[72]]), ds_VX = None\<rparr>"

text \<open>A file system holding one flat HDF5 file, and one holding nothing.\<close>

definition h5_world :: "int members \<Rightarrow> int members world" where
  "h5_world h5 = \<lparr>disk = [''centroids.h5'' \<mapsto> H5 h5], handles = [], log = []\<rparr>"

definition empty_world :: "int members world" where
  "empty_world = \<lparr>disk = Map.empty, handles = [], log = []\<rparr>"


section \<open>Facts about the stores and the assembler\<close>

lemma np_take_Inr:
  "np_take a idx = Inr b \<longleftrightarrow> (b = map (\<lambda>i. a ! i) idx \<and> (\<forall>i\<in>set idx. i < length a))"
  by (auto simp: np_take_def list_all_iff)

lemma np_take_length: "np_take a idx = Inr b \<Longrightarrow> length b = length idx"
  by (auto simp: np_take_Inr)

lemma h5py_File_r:
  "h5py_File f Mode_r w =
     (case disk w f of
        Some (H5 members) \<Rightarrow>
          (Inr members, w\<lparr>handles := (f, Mode_r) # handles w, log := log w @ [Opened f Mode_r]\<rparr>)
      | _ \<Rightarrow> (Inl (OSError f), w))"
  by (simp add: h5py_File_def)

lemma load_document_vectors_fst:
  "disk w f = Some (H5 h5) \<Longrightarrow>
   fst (load_document_vectors srt f m u w) = assemble srt h5 m u"
  by (simp add: load_document_vectors_def h5py_File_r)

lemma load_document_vectors_Inr:
  "fst (load_document_vectors srt f m u w) = Inr res \<Longrightarrow>
   \<exists>h5. disk w f = Some (H5 h5) \<and> assemble srt h5 m u = Inr res"
  by (auto simp: load_document_vectors_def h5py_File_r split: option.splits fsobj.splits)

text \<open>What a successful run of the \<^verbatim>\<open>with\<close> block went through.\<close>

lemma assemble_Inr:
  assumes "assemble srt h5 m u = Inr res"
  obtains g refs0 X X1 where
    "map_of h5 m = Some g"
    "hstack_refs g = Inr refs0"
    "vstack_vectors (if u then ''VX'' else ''V'') g = Inr X"
    "nrows X = length refs0"
    "np_take refs0 (srt refs0) = Inr (refs res)"
    "np_vstack (map atleast_2d (arows X)) = Inr X1"
    "np_take (arows X1) (srt refs0) = Inr (arows (docv res))"
    "ncols (docv res) = ncols X1"
  using assms
  unfolding assemble_def Let_def
  by (auto split: option.splits sum.splits if_splits)

lemmas example_simps =
  load_document_vectors_def h5py_File_def h5_close_def score_world_def assemble_def
  hstack_refs_def vstack_vectors_def shard_vectors_def vector_dataset_def h5_dataset_def
  shard_a_def shard_b_def shard_short_def shard_empty_def shard_p_def shard_q_def
  np_hstack_def np_vstack_def np_take_def nrows_def atleast_2d_def
  argsort_stable_def argsort_reversing_def upt_rec

lemma mset_take_perm:
  assumes "mset idx = mset [0..<length xs]"
  shows "mset (map (\<lambda>i. xs ! i) idx) = mset xs"
proof -
  have "mset (map (\<lambda>i. xs ! i) idx) = image_mset (\<lambda>i. xs ! i) (mset idx)" by simp
  also have "\<dots> = image_mset (\<lambda>i. xs ! i) (mset [0..<length xs])" using assms by simp
  also have "\<dots> = mset (map (\<lambda>i. xs ! i) [0..<length xs])" by simp
  also have "\<dots> = mset xs" by (simp add: map_nth)
  finally show ?thesis .
qed

lemma argsort_ok_mset: "argsort_ok srt \<Longrightarrow> mset (srt a) = mset [0..<length a]"
  unfolding argsort_ok_def by blast

lemma argsort_ok_set: "argsort_ok srt \<Longrightarrow> set (srt a) = {0..<length a}"
  using arg_cong [OF argsort_ok_mset, of srt set_mset a] by simp

lemma argsort_ok_length: "argsort_ok srt \<Longrightarrow> length (srt a) = length a"
  using arg_cong [OF argsort_ok_mset, of srt size a] by simp

lemma argsort_ok_sorted: "argsort_ok srt \<Longrightarrow> sorted (map (\<lambda>i. a ! i) (srt a))"
  unfolding argsort_ok_def by blast

lemma np_take_argsort:
  "argsort_ok srt \<Longrightarrow> length b = length a \<Longrightarrow> np_take b (srt a) = Inr (map (\<lambda>i. b ! i) (srt a))"
  by (simp add: np_take_def list_all_iff argsort_ok_set)

lemma sorted_arrangement_unique:
  assumes m: "mset xs = mset ys"
    and d: "distinct (map f xs)"
    and sx: "sorted (map f xs)" and sy: "sorted (map f ys)"
  shows "xs = ys"
proof -
  have m': "mset (map f xs) = mset (map f ys)" using m by simp
  then have dy: "distinct (map f ys)" using d by (simp add: mset_eq_imp_distinct_iff [OF m'])
  have "set (map f xs) = set (map f ys)" using m' by (rule mset_eq_setD)
  with sx d sy dy have e: "map f xs = map f ys" by (rule sorted_distinct_set_unique)
  have "set xs = set ys" using m by (rule mset_eq_setD)
  moreover have "inj_on f (set xs)" using d by (simp add: distinct_map)
  ultimately have "inj_on f (set xs \<union> set ys)" by simp
  with e show ?thesis by (simp add: inj_on_map_eq_map)
qed

lemma zip_take:
  assumes "length a = length b" "\<forall>i\<in>set idx. i < length a"
  shows "zip (map (\<lambda>i. a ! i) idx) (map (\<lambda>i. b ! i) idx) = map (\<lambda>i. zip a b ! i) idx"
  using assms by (induction idx) auto

lemma collect_char:
  assumes "\<forall>x\<in>set xs. isl x \<longrightarrow> x = Inl e0"
  shows "collect xs = (if Inl e0 \<in> set xs then Inl e0 else Inr (map projr xs))"
  using assms
proof (induction xs)
  case Nil
  then show ?case by simp
next
  case (Cons x xs)
  show ?case
  proof (cases x)
    case (Inl e)
    with Cons.prems have "e = e0" by simp
    with Inl show ?thesis by simp
  next
    case (Inr y)
    have "collect xs = (if Inl e0 \<in> set xs then Inl e0 else Inr (map projr xs))"
      using Cons.IH Cons.prems by simp
    then show ?thesis using Inr by simp
  qed
qed

lemma np_vstack_char:
  "np_vstack tup =
     (if tup = [] \<or> (\<exists>A\<in>set tup. \<exists>B\<in>set tup. ncols A \<noteq> ncols B) then Inl (ValueError Raised_by_library)
      else Inr (Array2 (ncols (hd tup)) (concat (map arows tup))))"
proof (cases tup)
  case Nil
  then show ?thesis by (simp add: np_vstack_def)
next
  case (Cons A As)
  have h: "(\<exists>C\<in>set tup. \<exists>B\<in>set tup. ncols C \<noteq> ncols B) \<longleftrightarrow> \<not> list_all (\<lambda>B. ncols B = ncols A) As"
    unfolding Cons list_all_iff by (metis set_ConsD list.set_intros(1) list.set_intros(2))
  have "np_vstack tup =
     (if list_all (\<lambda>B. ncols B = ncols A) As then Inr (Array2 (ncols A) (concat (map arows tup)))
      else Inl (ValueError Raised_by_library))"
    unfolding np_vstack_def Cons by simp
  moreover have "tup \<noteq> []" "hd tup = A" using Cons by simp_all
  ultimately show ?thesis unfolding h by simp
qed

lemma collect_refs:
  "collect (map (\<lambda>(k, sh). h5_dataset ''_ref'' (ds_ref sh)) g) =
     (if \<exists>(k, sh)\<in>set g. ds_ref sh = None then Inl (KeyError ''_ref'')
      else Inr (map (\<lambda>(k, sh). the (ds_ref sh)) g))"
proof (induction g)
  case Nil
  then show ?case by simp
next
  case (Cons p g)
  obtain k sh where p: "p = (k, sh)" by (cases p)
  show ?case
  proof (cases "ds_ref sh")
    case None
    then show ?thesis by (simp add: p h5_dataset_def)
  next
    case (Some r)
    then show ?thesis using Cons.IH by (simp add: p h5_dataset_def)
  qed
qed

lemma collect_vectors:
  "collect (map (\<lambda>(k, sh). shard_vectors key sh) g) =
     (if \<exists>(k, sh)\<in>set g. vector_dataset key sh = None then Inl (KeyError key)
      else Inr (map (\<lambda>(k, sh). the (vector_dataset key sh)) g))"
proof (induction g)
  case Nil
  then show ?case by simp
next
  case (Cons p g)
  obtain k sh where p: "p = (k, sh)" by (cases p)
  show ?case
  proof (cases "vector_dataset key sh")
    case None
    then show ?thesis by (simp add: p h5_dataset_def shard_vectors_def)
  next
    case (Some r)
    then show ?thesis using Cons.IH by (simp add: p h5_dataset_def shard_vectors_def)
  qed
qed

lemma stored_refs_the:
  "\<not> (\<exists>(k, sh)\<in>set g. ds_ref sh = None) \<Longrightarrow>
   concat (map (\<lambda>(k, sh). the (ds_ref sh)) g) = stored_refs g"
  unfolding stored_refs_def
  by (rule arg_cong [where f = concat], rule map_cong) (auto split: option.splits)

lemma stored_rows_the:
  "\<not> (\<exists>(k, sh)\<in>set g. vector_dataset key sh = None) \<Longrightarrow>
   concat (map arows (map (\<lambda>(k, sh). the (vector_dataset key sh)) g)) = stored_rows key g"
  unfolding stored_rows_def map_map
  by (rule arg_cong [where f = concat], rule map_cong) (auto split: option.splits)

lemma hstack_refs_char:
  "hstack_refs g =
     (if \<exists>(k, sh)\<in>set g. ds_ref sh = None then Inl (KeyError ''_ref'')
      else if g = [] then Inl (ValueError Raised_by_library)
      else Inr (stored_refs g))"
  by (simp add: hstack_refs_def collect_refs np_hstack_def stored_refs_the)

lemma same_width_iff:
  "same_width key g \<longleftrightarrow>
   (\<forall>p\<in>set g. \<forall>q\<in>set g. map_option ncols (vector_dataset key (snd q))
                             = map_option ncols (vector_dataset key (snd p)))"
  by (simp add: same_width_def list_all_iff case_prod_beta)

lemma vstack_vectors_char:
  "vstack_vectors key g =
     (if \<exists>(k, sh)\<in>set g. vector_dataset key sh = None then Inl (KeyError key)
      else if g = [] \<or> \<not> same_width key g then Inl (ValueError Raised_by_library)
      else Inr (Array2 (ncols (the (vector_dataset key (snd (hd g))))) (stored_rows key g)))"
proof (cases "\<exists>(k, sh)\<in>set g. vector_dataset key sh = None")
  case True
  then show ?thesis by (simp add: vstack_vectors_def collect_vectors)
next
  case False
  let ?vs = "map (\<lambda>(k, sh). the (vector_dataset key sh)) g"
  have all: "\<And>p. p \<in> set g \<Longrightarrow> \<exists>V. vector_dataset key (snd p) = Some V"
    using False by (auto simp: case_prod_beta)
  have w: "(\<exists>A\<in>set ?vs. \<exists>B\<in>set ?vs. ncols A \<noteq> ncols B) \<longleftrightarrow> \<not> same_width key g"
  proof
    assume "\<exists>A\<in>set ?vs. \<exists>B\<in>set ?vs. ncols A \<noteq> ncols B"
    then obtain p q where pq: "p \<in> set g" "q \<in> set g"
      and ne: "ncols (the (vector_dataset key (snd p))) \<noteq> ncols (the (vector_dataset key (snd q)))"
      by (auto simp: case_prod_beta)
    from all [OF pq(1)] all [OF pq(2)] ne
    have "map_option ncols (vector_dataset key (snd q)) \<noteq> map_option ncols (vector_dataset key (snd p))"
      by auto
    with pq show "\<not> same_width key g" unfolding same_width_iff by blast
  next
    assume "\<not> same_width key g"
    then obtain p q where pq: "p \<in> set g" "q \<in> set g"
      and ne: "map_option ncols (vector_dataset key (snd q)) \<noteq> map_option ncols (vector_dataset key (snd p))"
      unfolding same_width_iff by blast
    from all [OF pq(1)] all [OF pq(2)] ne
    have "ncols (the (vector_dataset key (snd q))) \<noteq> ncols (the (vector_dataset key (snd p)))"
      by auto
    moreover have "the (vector_dataset key (snd q)) \<in> set ?vs" "the (vector_dataset key (snd p)) \<in> set ?vs"
      using pq by (auto simp: case_prod_beta)
    ultimately show "\<exists>A\<in>set ?vs. \<exists>B\<in>set ?vs. ncols A \<noteq> ncols B" by blast
  qed
  have hd: "g \<noteq> [] \<Longrightarrow> hd ?vs = the (vector_dataset key (snd (hd g)))"
    by (cases g) (auto simp: case_prod_beta)
  have "vstack_vectors key g = np_vstack ?vs"
    using False by (simp add: vstack_vectors_def collect_vectors)
  also have "\<dots> = (if g = [] \<or> \<not> same_width key g then Inl (ValueError Raised_by_library)
      else Inr (Array2 (ncols (the (vector_dataset key (snd (hd g))))) (stored_rows key g)))"
    unfolding np_vstack_char w using hd stored_rows_the [OF False] by simp
  finally show ?thesis using False by simp
qed

lemma restack_rows_char:
  "np_vstack (map atleast_2d rws) =
     (if rws = [] \<or> (\<exists>r\<in>set rws. \<exists>r'\<in>set rws. length r \<noteq> length r')
      then Inl (ValueError Raised_by_library)
      else Inr (Array2 (length (hd rws)) rws))"
proof -
  have c: "concat (map arows (map atleast_2d rws)) = rws"
    by (induction rws) (simp_all add: atleast_2d_def)
  have h: "rws \<noteq> [] \<Longrightarrow> ncols (hd (map atleast_2d rws)) = length (hd rws)"
    by (cases rws) (simp_all add: atleast_2d_def)
  have e: "(\<exists>A\<in>set (map atleast_2d rws). \<exists>B\<in>set (map atleast_2d rws). ncols A \<noteq> ncols B)
      \<longleftrightarrow> (\<exists>r\<in>set rws. \<exists>r'\<in>set rws. length r \<noteq> length r')"
    by (simp add: atleast_2d_def)
  show ?thesis
  proof (cases "rws = []")
    case True
    then show ?thesis by (simp add: np_vstack_def)
  next
    case False
    then have ne: "map atleast_2d rws \<noteq> []" by simp
    have "np_vstack (map atleast_2d rws) =
       (if (\<exists>A\<in>set (map atleast_2d rws). \<exists>B\<in>set (map atleast_2d rws). ncols A \<noteq> ncols B)
        then Inl (ValueError Raised_by_library)
        else Inr (Array2 (ncols (hd (map atleast_2d rws))) (concat (map arows (map atleast_2d rws)))))"
      using ne by (simp only: np_vstack_char simp_thms if_False)
    also have "\<dots> = (if (\<exists>r\<in>set rws. \<exists>r'\<in>set rws. length r \<noteq> length r')
        then Inl (ValueError Raised_by_library) else Inr (Array2 (length (hd rws)) rws))"
      by (simp only: e c h [OF False])
    finally show ?thesis using False by (simp only: simp_thms if_False)
  qed
qed

lemma assemble_char:
  assumes ok: "argsort_ok srt" and g: "map_of h5 m = Some g"
  shows "assemble srt h5 m u =
     (let key = (if u then ''VX'' else ''V'') in
      if \<exists>(k, sh)\<in>set g. ds_ref sh = None then Inl (KeyError ''_ref'')
      else if g = [] then Inl (ValueError Raised_by_library)
      else if \<exists>(k, sh)\<in>set g. vector_dataset key sh = None then Inl (KeyError key)
      else if \<not> same_width key g then Inl (ValueError Raised_by_library)
      else if length (stored_rows key g) \<noteq> length (stored_refs g) then Inl AssertionError
      else if stored_rows key g = [] \<or>
              (\<exists>r\<in>set (stored_rows key g). \<exists>r'\<in>set (stored_rows key g). length r \<noteq> length r')
           then Inl (ValueError Raised_by_library)
      else Inr (assembled srt (stored_refs g) (stored_rows key g)))"
proof -
  define key where "key = (if u then ''VX'' else ''V'')"
  define rfs where "rfs = stored_refs g"
  define rws where "rws = stored_rows key g"
  define c1 where "c1 \<longleftrightarrow> (\<exists>(k, sh)\<in>set g. ds_ref sh = None)"
  define c3 where "c3 \<longleftrightarrow> (\<exists>(k, sh)\<in>set g. vector_dataset key sh = None)"
  define c6 where "c6 \<longleftrightarrow> rws = [] \<or> (\<exists>r\<in>set rws. \<exists>r'\<in>set rws. length r \<noteq> length r')"
  define W where "W = ncols (the (vector_dataset key (snd (hd g))))"
  have hs: "hstack_refs g = (if c1 then Inl (KeyError ''_ref'')
      else if g = [] then Inl (ValueError Raised_by_library) else Inr rfs)"
    unfolding c1_def rfs_def by (rule hstack_refs_char)
  have vs: "vstack_vectors key g = (if c3 then Inl (KeyError key)
      else if g = [] \<or> \<not> same_width key g then Inl (ValueError Raised_by_library)
      else Inr (Array2 W rws))"
    unfolding c3_def rws_def W_def by (rule vstack_vectors_char)
  have rs: "np_vstack (map atleast_2d rws) =
     (if c6 then Inl (ValueError Raised_by_library) else Inr (Array2 (length (hd rws)) rws))"
    unfolding c6_def by (rule restack_rows_char)
  have t1: "np_take rfs (srt rfs) = Inr (map (\<lambda>i. rfs ! i) (srt rfs))"
    using ok by (simp add: np_take_argsort)
  have t2: "length rws = length rfs \<Longrightarrow> np_take rws (srt rfs) = Inr (map (\<lambda>i. rws ! i) (srt rfs))"
    using ok by (simp add: np_take_argsort)
  have "assemble srt h5 m u =
     (if c1 then Inl (KeyError ''_ref'')
      else if g = [] then Inl (ValueError Raised_by_library)
      else if c3 then Inl (KeyError key)
      else if \<not> same_width key g then Inl (ValueError Raised_by_library)
      else if length rws \<noteq> length rfs then Inl AssertionError
      else if c6 then Inl (ValueError Raised_by_library)
      else Inr (assembled srt rfs rws))"
    unfolding assemble_def g Let_def key_def [symmetric]
    by (simp add: hs vs rs t1 t2 nrows_def assembled_def)
  then show ?thesis
    unfolding Let_def key_def [symmetric] c1_def c3_def c6_def rfs_def rws_def .
qed

lemma mset_concat_map_perm:
  assumes "mset xs = mset ys"
  shows "mset (concat (map f xs)) = mset (concat (map f ys))"
proof -
  have "\<And>zs. mset (concat (map f zs)) = sum_mset (image_mset (\<lambda>z. mset (f z)) (mset zs))"
    by (induct_tac zs) simp_all
  then show ?thesis using assms by simp
qed

lemma stored_refs_perm: "mset g' = mset g \<Longrightarrow> mset (stored_refs g') = mset (stored_refs g)"
  unfolding stored_refs_def by (rule mset_concat_map_perm)

lemma stored_rows_perm: "mset g' = mset g \<Longrightarrow> mset (stored_rows key g') = mset (stored_rows key g)"
  unfolding stored_rows_def by (rule mset_concat_map_perm)

lemma stored_pairs_perm: "mset g' = mset g \<Longrightarrow> mset (stored_pairs key g') = mset (stored_pairs key g)"
  unfolding stored_pairs_def by (rule mset_concat_map_perm)

lemma same_width_perm: "set g' = set g \<Longrightarrow> same_width key g' = same_width key g"
  by (simp add: same_width_iff)

text \<open>Where every shard holds both datasets with matching lengths, the two stacks pair up
  as stored.\<close>

lemma stored_pairs_zip:
  assumes "\<not> (\<exists>(k, sh)\<in>set g. ds_ref sh = None)"
    and "\<not> (\<exists>(k, sh)\<in>set g. vector_dataset key sh = None)"
    and "list_all (\<lambda>(k, sh). shard_aligned key sh) g"
  shows "stored_pairs key g = zip (stored_refs g) (stored_rows key g)
         \<and> length (stored_rows key g) = length (stored_refs g)"
  using assms
proof (induction g)
  case Nil
  then show ?case by (simp add: stored_pairs_def stored_refs_def stored_rows_def)
next
  case (Cons p g)
  obtain k sh where p: "p = (k, sh)" by (cases p)
  from Cons.prems obtain r V where r: "ds_ref sh = Some r" and V: "vector_dataset key sh = Some V"
    by (auto simp: p)
  from Cons.prems r V have len: "length (arows V) = length r"
    by (simp add: p shard_aligned_def nrows_def)
  have IH: "stored_pairs key g = zip (stored_refs g) (stored_rows key g)
         \<and> length (stored_rows key g) = length (stored_refs g)"
    using Cons.IH Cons.prems by simp
  have 1: "stored_refs (p # g) = r @ stored_refs g"
    by (simp add: stored_refs_def p r)
  have 2: "stored_rows key (p # g) = arows V @ stored_rows key g"
    by (simp add: stored_rows_def p V)
  have 3: "stored_pairs key (p # g) = zip r (arows V) @ stored_pairs key g"
    by (simp add: stored_pairs_def shard_pairs_def p r V)
  show ?case unfolding 1 2 3 using IH len by simp
qed

lemma assembled_zip:
  assumes ok: "argsort_ok srt" and len: "length rws = length rfs"
  shows "zip (refs (assembled srt rfs rws)) (arows (docv (assembled srt rfs rws)))
           = map (\<lambda>i. zip rfs rws ! i) (srt rfs)"
proof -
  have "\<forall>i\<in>set (srt rfs). i < length rfs"
    using ok by (simp add: argsort_ok_set)
  then show ?thesis
    using len by (simp add: assembled_def zip_take)
qed

lemma assembled_sorted: "argsort_ok srt \<Longrightarrow> sorted (refs (assembled srt rfs rws))"
  by (simp add: assembled_def argsort_ok_sorted)

lemma assembled_mset:
  assumes ok: "argsort_ok srt" and len: "length rws = length rfs"
  shows "mset (zip (refs (assembled srt rfs rws)) (arows (docv (assembled srt rfs rws))))
           = mset (zip rfs rws)"
proof -
  have "mset (srt rfs) = mset [0..<length (zip rfs rws)]"
    using ok len by (simp add: argsort_ok_mset)
  then have "mset (map (\<lambda>i. zip rfs rws ! i) (srt rfs)) = mset (zip rfs rws)"
    by (rule mset_take_perm)
  then show ?thesis using assembled_zip [OF ok len] by simp
qed

lemma assembled_unique:
  assumes ok: "argsort_ok srt" and ok': "argsort_ok srt'"
    and len: "length rws = length rfs" and len': "length rws' = length rfs'"
    and m: "mset (zip rfs' rws') = mset (zip rfs rws)"
    and d: "distinct rfs"
  shows "refs (assembled srt rfs rws) = refs (assembled srt' rfs' rws') \<and>
         arows (docv (assembled srt rfs rws)) = arows (docv (assembled srt' rfs' rws'))"
proof -
  let ?A = "assembled srt rfs rws" and ?B = "assembled srt' rfs' rws'"
  let ?za = "zip (refs ?A) (arows (docv ?A))" and ?zb = "zip (refs ?B) (arows (docv ?B))"
  have la: "length (arows (docv ?A)) = length (refs ?A)"
    and lb: "length (arows (docv ?B)) = length (refs ?B)"
    by (simp_all add: assembled_def)
  have fa: "map fst ?za = refs ?A" using la by simp
  have fb: "map fst ?zb = refs ?B" using lb by simp
  have "mset ?za = mset ?zb"
    using assembled_mset [OF ok len] assembled_mset [OF ok' len'] m by simp
  moreover have mr: "mset (refs ?A) = mset rfs"
    using mset_take_perm [of "srt rfs" rfs] ok by (simp add: assembled_def argsort_ok_mset)
  have "distinct (refs ?A)" using d mset_eq_imp_distinct_iff [OF mr] by blast
  then have "distinct (map fst ?za)" using fa by simp
  moreover have "sorted (map fst ?za)" using fa assembled_sorted [OF ok] by simp
  moreover have "sorted (map fst ?zb)" using fb assembled_sorted [OF ok'] by simp
  ultimately have e: "?za = ?zb" by (rule sorted_arrangement_unique)
  have "refs ?A = map fst ?za" using fa by simp
  also have "\<dots> = map fst ?zb" using e by simp
  also have "\<dots> = refs ?B" using fb by simp
  finally have 1: "refs ?A = refs ?B" .
  have "arows (docv ?A) = map snd ?za" using la by simp
  also have "\<dots> = map snd ?zb" using e by simp
  also have "\<dots> = arows (docv ?B)" using lb by simp
  finally have 2: "arows (docv ?A) = arows (docv ?B)" .
  from 1 2 show ?thesis by simp
qed

lemma assembled_eqI:
  assumes "refs (assembled srt rfs rws) = refs (assembled srt' rfs' rws') \<and>
         arows (docv (assembled srt rfs rws)) = arows (docv (assembled srt' rfs' rws'))"
    and "length (hd rws) = length (hd rws')"
  shows "assembled srt rfs rws = assembled srt' rfs' rws'"
  using assms by (simp add: assembled_def)

lemma if_chain6:
  assumes "\<not> c1 \<Longrightarrow> \<not> c2 \<Longrightarrow> \<not> c3 \<Longrightarrow> \<not> c4 \<Longrightarrow> \<not> c5 \<Longrightarrow> \<not> c6 \<Longrightarrow> x = y"
  shows "(if c1 then a1 else if c2 then a2 else if c3 then a3 else if c4 then a4
          else if c5 then a5 else if c6 then a6 else x)
       = (if c1 then a1 else if c2 then a2 else if c3 then a3 else if c4 then a4
          else if c5 then a5 else if c6 then a6 else y)"
  using assms by simp

lemma assemble_perm:
  assumes ok: "argsort_ok srt" and ok': "argsort_ok srt'"
    and g: "map_of h5 m = Some g" and g': "map_of h5' m = Some g'"
    and perm: "mset g' = mset g"
    and al: "list_all (\<lambda>(k, sh). shard_aligned (if u then ''VX'' else ''V'') sh) g"
    and d: "distinct (stored_refs g)"
  shows "assemble srt h5 m u = assemble srt' h5' m u"
proof -
  define key where "key = (if u then ''VX'' else ''V'')"
  have s: "set g' = set g" using perm by (rule mset_eq_setD)
  have e: "g' = [] \<longleftrightarrow> g = []" using perm by (metis mset_zero_iff)
  have w: "same_width key g' = same_width key g" using s by (rule same_width_perm)
  have mr: "mset (stored_rows key g') = mset (stored_rows key g)" using perm by (rule stored_rows_perm)
  have mf: "mset (stored_refs g') = mset (stored_refs g)" using perm by (rule stored_refs_perm)
  have lr: "length (stored_rows key g') = length (stored_rows key g)" using mr by (rule mset_eq_length)
  have lf: "length (stored_refs g') = length (stored_refs g)" using mf by (rule mset_eq_length)
  have sr: "set (stored_rows key g') = set (stored_rows key g)" using mr by (rule mset_eq_setD)
  have er: "stored_rows key g' = [] \<longleftrightarrow> stored_rows key g = []" using lr by (metis length_0_conv)
  have al': "list_all (\<lambda>(k, sh). shard_aligned key sh) g'"
    using al s unfolding key_def list_all_iff by simp
  have al0: "list_all (\<lambda>(k, sh). shard_aligned key sh) g"
    using al unfolding key_def .
  have fin: "assembled srt (stored_refs g) (stored_rows key g)
           = assembled srt' (stored_refs g') (stored_rows key g')"
    if c1: "\<not> (\<exists>(k, sh)\<in>set g. ds_ref sh = None)"
      and c3: "\<not> (\<exists>(k, sh)\<in>set g. vector_dataset key sh = None)"
      and c6: "\<not> (stored_rows key g = [] \<or>
              (\<exists>r\<in>set (stored_rows key g). \<exists>r'\<in>set (stored_rows key g). length r \<noteq> length r'))"
  proof (rule assembled_eqI)
    have z: "stored_pairs key g = zip (stored_refs g) (stored_rows key g)
         \<and> length (stored_rows key g) = length (stored_refs g)"
      using c1 c3 al0 by (rule stored_pairs_zip)
    have c1': "\<not> (\<exists>(k, sh)\<in>set g'. ds_ref sh = None)" using c1 s by simp
    have c3': "\<not> (\<exists>(k, sh)\<in>set g'. vector_dataset key sh = None)" using c3 s by simp
    have z': "stored_pairs key g' = zip (stored_refs g') (stored_rows key g')
         \<and> length (stored_rows key g') = length (stored_refs g')"
      using c1' c3' al' by (rule stored_pairs_zip)
    have m: "mset (zip (stored_refs g') (stored_rows key g')) = mset (zip (stored_refs g) (stored_rows key g))"
      using stored_pairs_perm [OF perm, of key] z z' by simp
    show "refs (assembled srt (stored_refs g) (stored_rows key g))
            = refs (assembled srt' (stored_refs g') (stored_rows key g')) \<and>
          arows (docv (assembled srt (stored_refs g) (stored_rows key g)))
            = arows (docv (assembled srt' (stored_refs g') (stored_rows key g')))"
      using ok ok' _ _ m d
      by (rule assembled_unique) (simp_all add: z z')
    have "hd (stored_rows key g) \<in> set (stored_rows key g)" using c6 by simp
    moreover have "hd (stored_rows key g') \<in> set (stored_rows key g)"
      using c6 er sr by (metis hd_in_set)
    ultimately show "length (hd (stored_rows key g)) = length (hd (stored_rows key g'))"
      using c6 by blast
  qed
  show ?thesis
    unfolding assemble_char [OF ok g] assemble_char [OF ok' g'] Let_def key_def [symmetric]
    unfolding s e w lr lf sr er
  proof (rule if_chain6)
    assume "\<not> (\<exists>(k, sh)\<in>set g. ds_ref sh = None)"
      and "\<not> (\<exists>(k, sh)\<in>set g. vector_dataset key sh = None)"
      and "\<not> (stored_rows key g = [] \<or>
              (\<exists>r\<in>set (stored_rows key g). \<exists>r'\<in>set (stored_rows key g). length r \<noteq> length r'))"
    then have "assembled srt (stored_refs g) (stored_rows key g)
           = assembled srt' (stored_refs g') (stored_rows key g')"
      by (rule fin)
    then show "Inr (assembled srt (stored_refs g) (stored_rows key g))
           = (Inr (assembled srt' (stored_refs g') (stored_rows key g')) :: error + _)"
      by simp
  qed
qed

lemma shard_ok_present:
  assumes "list_all (\<lambda>(k, sh). shard_ok key sh) g"
  shows "\<not> (\<exists>(k, sh)\<in>set g. ds_ref sh = None)"
    and "\<not> (\<exists>(k, sh)\<in>set g. vector_dataset key sh = None)"
    and "list_all (\<lambda>(k, sh). shard_aligned key sh) g"
  using assms
  by (auto simp: list_all_iff shard_ok_def shard_aligned_def split: option.splits)

lemma stored_rows_mem:
  assumes "r \<in> set (stored_rows key g)"
  obtains k sh V where "(k, sh) \<in> set g" "vector_dataset key sh = Some V" "r \<in> set (arows V)"
proof -
  from assms obtain p where p: "p \<in> set g"
    and r: "r \<in> set (case vector_dataset key (snd p) of None \<Rightarrow> [] | Some V \<Rightarrow> arows V)"
    unfolding stored_rows_def by (auto simp: case_prod_beta)
  from r obtain V where "vector_dataset key (snd p) = Some V" "r \<in> set (arows V)"
    by (cases "vector_dataset key (snd p)") simp_all
  with p that [of "fst p" "snd p" V] show thesis by simp
qed

lemma stored_rows_uniform:
  assumes sok: "list_all (\<lambda>(k, sh). shard_ok key sh) g" and sw: "same_width key g"
    and r: "r \<in> set (stored_rows key g)" and r': "r' \<in> set (stored_rows key g)"
  shows "length r = length r'"
proof -
  from r obtain k sh V where 1: "(k, sh) \<in> set g" "vector_dataset key sh = Some V" "r \<in> set (arows V)"
    by (rule stored_rows_mem)
  from r' obtain k' sh' V' where 2: "(k', sh') \<in> set g" "vector_dataset key sh' = Some V'" "r' \<in> set (arows V')"
    by (rule stored_rows_mem)
  have "shard_ok key sh" using sok 1(1) by (auto simp: list_all_iff)
  then have a: "length r = ncols V" using 1(2,3)
    by (auto simp: shard_ok_def list_all_iff split: option.splits)
  have "shard_ok key sh'" using sok 2(1) by (auto simp: list_all_iff)
  then have b: "length r' = ncols V'" using 2(2,3)
    by (auto simp: shard_ok_def list_all_iff split: option.splits)
  have "map_option ncols (vector_dataset key (snd (k', sh'))) = map_option ncols (vector_dataset key (snd (k, sh)))"
    using sw 1(1) 2(1) unfolding same_width_iff by blast
  then have "ncols V = ncols V'" using 1(2) 2(2) by simp
  with a b show ?thesis by simp
qed

lemma zip_upt_nth:
  assumes "(x, i) \<in> set (zip a [0..<length a])"
  shows "a ! i = x"
proof -
  from assms obtain j where "zip a [0..<length a] ! j = (x, i)" "j < length (zip a [0..<length a])"
    by (auto simp: in_set_conv_nth)
  then show ?thesis by auto
qed

lemma argsort_from_pairs:
  assumes m: "mset l = mset (zip a [0..<length a])" and s: "sorted (map fst l)"
  shows "mset (map snd l) = mset [0..<length a] \<and> sorted (map (\<lambda>i. a ! i) (map snd l))"
proof
  have "mset (map snd l) = mset (map snd (zip a [0..<length a]))"
    unfolding mset_map m ..
  also have "map snd (zip a [0..<length a]) = [0..<length a]"
    by (rule map_snd_zip) simp
  finally show "mset (map snd l) = mset [0..<length a]" .
  have "set l = set (zip a [0..<length a])" using m by (rule mset_eq_setD)
  then have "\<And>p. p \<in> set l \<Longrightarrow> a ! snd p = fst p"
    using zip_upt_nth [of _ _ a] by (metis prod.collapse)
  then have "map ((\<lambda>i. a ! i) \<circ> snd) l = map fst l"
    by (intro map_cong refl) simp
  then have "map (\<lambda>i. a ! i) (map snd l) = map fst l"
    by (simp only: map_map)
  then show "sorted (map (\<lambda>i. a ! i) (map snd l))"
    using s by (simp only:)
qed

lemma argsort_ok_stable: "argsort_ok argsort_stable"
  unfolding argsort_ok_def argsort_stable_def
  by (intro allI argsort_from_pairs) simp_all

lemma argsort_ok_reversing: "argsort_ok argsort_reversing"
  unfolding argsort_ok_def argsort_reversing_def
  by (intro allI argsort_from_pairs) simp_all

lemma load_document_vectors_ok:
  assumes ok: "argsort_ok srt"
    and f: "disk w f = Some (H5 h5)" and g: "map_of h5 m = Some g"
    and ne: "g \<noteq> []"
    and sok: "list_all (\<lambda>(k, sh). shard_ok key sh) g"
    and sw: "same_width key g"
    and rows: "stored_rows key g \<noteq> []"
    and key: "key = (if u then ''VX'' else ''V'')"
  shows "fst (load_document_vectors srt f m u w)
           = Inr (assembled srt (stored_refs g) (stored_rows key g))"
    and "stored_pairs key g = zip (stored_refs g) (stored_rows key g)"
    and "length (stored_rows key g) = length (stored_refs g)"
proof -
  note p = shard_ok_present [OF sok]
  have z: "stored_pairs key g = zip (stored_refs g) (stored_rows key g)
         \<and> length (stored_rows key g) = length (stored_refs g)"
    using p by (rule stored_pairs_zip)
  then show "stored_pairs key g = zip (stored_refs g) (stored_rows key g)"
    and "length (stored_rows key g) = length (stored_refs g)" by simp_all
  have u: "\<not> (\<exists>r\<in>set (stored_rows key g). \<exists>r'\<in>set (stored_rows key g). length r \<noteq> length r')"
    using stored_rows_uniform [OF sok sw] by blast
  have "assemble srt h5 m u = Inr (assembled srt (stored_refs g) (stored_rows key g))"
    unfolding assemble_char [OF ok g] Let_def key [symmetric]
    using p(1,2) ne sw z rows u
    by (simp only: simp_thms if_False not_False_eq_True if_True)
  then show "fst (load_document_vectors srt f m u w)
           = Inr (assembled srt (stored_refs g) (stored_rows key g))"
    using f by (simp add: load_document_vectors_fst)
qed

lemma assembled_refs_mset:
  assumes ok: "argsort_ok srt"
  shows "mset (refs (assembled srt rfs rws)) = mset rfs"
  using mset_take_perm [of "srt rfs" rfs] ok by (simp add: assembled_def argsort_ok_mset)

text \<open>
  With at least one stored row, well-formed shards of one width come back sorted by
  reference id, every row beside the reference id it was stored with.
\<close>

lemma load_document_vectors_sorted_aligned:
  assumes ok: "argsort_ok srt"
    and f: "disk w f = Some (H5 h5)" and g: "map_of h5 m = Some g"
    and ne: "g \<noteq> []"
    and sok: "list_all (\<lambda>(k, sh). shard_ok (if u then ''VX'' else ''V'') sh) g"
    and sw: "same_width (if u then ''VX'' else ''V'') g"
    and rows: "stored_rows (if u then ''VX'' else ''V'') g \<noteq> []"
  shows "\<exists>res. fst (load_document_vectors srt f m u w) = Inr res
       \<and> res = assembled srt (stored_refs g) (stored_rows (if u then ''VX'' else ''V'') g)
       \<and> sorted (refs res)
       \<and> length (refs res) = nrows (docv res)
       \<and> mset (zip (refs res) (arows (docv res)))
           = mset (stored_pairs (if u then ''VX'' else ''V'') g)"
proof -
  define key where "key = (if u then ''VX'' else ''V'')"
  define res where "res = assembled srt (stored_refs g) (stored_rows key g)"
  note l = load_document_vectors_ok [OF ok f g ne sok [folded key_def] sw [folded key_def]
      rows [folded key_def] key_def]
  have 1: "fst (load_document_vectors srt f m u w) = Inr res"
    unfolding res_def by (rule l(1))
  have 2: "sorted (refs res)" unfolding res_def using ok by (rule assembled_sorted)
  have 3: "length (refs res) = nrows (docv res)"
    by (simp add: res_def assembled_def nrows_def)
  have 4: "mset (zip (refs res) (arows (docv res))) = mset (stored_pairs key g)"
    unfolding res_def l(2) using ok l(3) by (rule assembled_mset)
  from 1 2 3 4 show ?thesis unfolding key_def [symmetric] res_def by blast
qed

section \<open>Facts about the table loader\<close>

lemma simple_CSV_read_char:
  "simple_CSV_read fs f cols =
     (case fs f of
        None \<Rightarrow> Inl (OSError f)
      | Some c \<Rightarrow>
          (if list_all (\<lambda>col. col \<in> set (csv_header c)) cols
           then Inr \<lparr>df_columns = filter (\<lambda>col. col \<in> set cols) (csv_header c),
                     df_index_name = None,
                     df_rows = enumerate 0 (map (\<lambda>r. r |` set cols) (csv_records c))\<rparr>
           else Inl (ValueError (Columns_do_not_match cols (csv_header c)))))"
  by (simp add: simple_CSV_read_def pd_read_csv_def pd_read_csv_columns_def split: option.splits)

lemma simple_CSV_read_ok:
  "file_ok fs cols f \<Longrightarrow>
   simple_CSV_read fs f cols
     = Inr \<lparr>df_columns = file_columns fs cols f, df_index_name = None,
            df_rows = enumerate 0 (file_records fs cols f)\<rparr>"
  by (cases "fs f")
    (simp_all add: simple_CSV_read_char file_ok_def file_records_def file_columns_def)

lemma simple_CSV_read_bad:
  "\<not> file_ok fs cols f \<Longrightarrow> \<exists>e. simple_CSV_read fs f cols = Inl e"
  by (cases "fs f") (simp_all add: simple_CSV_read_char file_ok_def)

lemma collect_all_Inr:
  "collect (map (\<lambda>x. Inr (h x)) xs) = Inr (map h xs)"
  by (induction xs) simp_all

lemma collect_some_Inl:
  assumes "x \<in> set xs" "isl x"
  shows "\<exists>e. collect xs = Inl e"
  using assms
proof (induction xs)
  case Nil
  then show ?case by simp
next
  case (Cons y ys)
  show ?case
  proof (cases y)
    case (Inl e)
    then show ?thesis by simp
  next
    case (Inr v)
    with Cons.prems have "x \<in> set ys" by auto
    with Cons.IH Cons.prems(2) obtain e where "collect ys = Inl e" by blast
    with Inr show ?thesis by simp
  qed
qed

lemma read_all_ok:
  assumes "list_all (file_ok fs cols) F"
  shows "joblib_Parallel n (\<lambda>x. simple_CSV_read fs x cols) F
     = Inr (map (\<lambda>f. \<lparr>df_columns = file_columns fs cols f, df_index_name = None,
                        df_rows = enumerate 0 (file_records fs cols f)\<rparr>) F)"
proof -
  have "map (\<lambda>x. simple_CSV_read fs x cols) F
      = map (\<lambda>f. Inr \<lparr>df_columns = file_columns fs cols f, df_index_name = None,
                        df_rows = enumerate 0 (file_records fs cols f)\<rparr>) F"
    using assms by (intro map_cong refl) (simp add: list_all_iff simple_CSV_read_ok)
  then show ?thesis
    unfolding joblib_Parallel_def by (simp only: collect_all_Inr)
qed

lemma read_all_bad:
  assumes "\<not> list_all (file_ok fs cols) F"
  shows "\<exists>e. joblib_Parallel n (\<lambda>x. simple_CSV_read fs x cols) F = Inl e"
proof -
  from assms obtain f where f: "f \<in> set F" "\<not> file_ok fs cols f"
    by (auto simp: list_all_iff)
  then obtain e where "simple_CSV_read fs f cols = Inl e"
    using simple_CSV_read_bad by blast
  with f(1) have "Inl e \<in> set (map (\<lambda>x. simple_CSV_read fs x cols) F)"
    by force
  then show ?thesis
    unfolding joblib_Parallel_def by (rule collect_some_Inl) simp
qed

lemma take_filter_positions:
  "map (\<lambda>i. rs ! i) (filter (\<lambda>i. keep (rs ! i)) [0..<length rs]) = filter keep rs"
proof (induction rs rule: rev_induct)
  case Nil
  then show ?case by simp
next
  case (snoc r rs)
  have a: "filter (\<lambda>i. keep ((rs @ [r]) ! i)) [0..<length rs] = filter (\<lambda>i. keep (rs ! i)) [0..<length rs]"
    by (intro filter_cong refl) (simp add: nth_append)
  have b: "map (\<lambda>i. (rs @ [r]) ! i) (filter (\<lambda>i. keep (rs ! i)) [0..<length rs])
         = map (\<lambda>i. rs ! i) (filter (\<lambda>i. keep (rs ! i)) [0..<length rs])"
    by (intro map_cong refl) (simp add: nth_append)
  show ?case using snoc.IH by (simp add: a b)
qed

lemma filter_positions_bound:
  "i \<in> set (filter Q [0..<n]) \<Longrightarrow> i < n"
  by simp

lemma nargsort_char:
  fixes recs :: "(string \<rightharpoonup> 'a::linorder) list"
  assumes ok: "argsort_ok srt"
  shows "\<exists>indexer. nargsort srt (map ref_of recs) = Inr indexer
           \<and> (\<forall>i\<in>set indexer. i < length recs)
           \<and> map (\<lambda>i. recs ! i) indexer = sorted_records srt recs"
proof -
  define items where "items = map ref_of recs"
  define nn where "nn = filter (\<lambda>r. ref_of r \<noteq> None) recs"
  define non_nans where "non_nans = map (\<lambda>r. the (ref_of r)) nn"
  define nn_idx where "nn_idx = filter (\<lambda>i. ref_of (recs ! i) \<noteq> None) [0..<length recs]"
  define nan_idx where "nan_idx = filter (\<lambda>i. ref_of (recs ! i) = None) [0..<length recs]"
  define perm where "perm = srt non_nans"
  have i1: "filter (\<lambda>i. items ! i \<noteq> None) [0..<length items] = nn_idx"
    unfolding items_def nn_idx_def length_map by (intro filter_cong refl) simp
  have i2: "filter (\<lambda>i. items ! i = None) [0..<length items] = nan_idx"
    unfolding items_def nan_idx_def length_map by (intro filter_cong refl) simp
  have i3: "map the (filter (\<lambda>x. x \<noteq> None) items) = non_nans"
    unfolding items_def non_nans_def nn_def by (simp add: filter_map comp_def)
  have t1: "map (\<lambda>i. recs ! i) nn_idx = nn"
    unfolding nn_idx_def nn_def by (rule take_filter_positions)
  have t2: "map (\<lambda>i. recs ! i) nan_idx = filter (\<lambda>r. ref_of r = None) recs"
    unfolding nan_idx_def by (rule take_filter_positions)
  have l1: "length nn_idx = length non_nans"
    using arg_cong [OF t1, of length] by (simp add: non_nans_def)
  have pset: "set perm = {0..<length nn_idx}"
    unfolding perm_def l1 using ok by (rule argsort_ok_set)
  then have tk: "np_take nn_idx perm = Inr (map (\<lambda>i. nn_idx ! i) perm)"
    by (simp add: np_take_def list_all_iff)
  have na: "nargsort srt items = Inr (map (\<lambda>i. nn_idx ! i) perm @ nan_idx)"
    unfolding nargsort_def Let_def i1 i2 i3 perm_def [symmetric] tk by simp
  have b1: "\<forall>i\<in>set (map (\<lambda>i. nn_idx ! i) perm @ nan_idx). i < length recs"
  proof
    fix i assume "i \<in> set (map (\<lambda>i. nn_idx ! i) perm @ nan_idx)"
    then consider j where "j \<in> set perm" "i = nn_idx ! j" | "i \<in> set nan_idx" by auto
    then show "i < length recs"
    proof cases
      case 1
      then have "j < length nn_idx" using pset by simp
      then have "nn_idx ! j \<in> set nn_idx" by simp
      then show ?thesis unfolding 1(2) nn_idx_def by simp
    next
      case 2
      then show ?thesis unfolding nan_idx_def by simp
    qed
  qed
  have "map (\<lambda>i. recs ! i) (map (\<lambda>i. nn_idx ! i) perm) = map (\<lambda>j. nn ! j) perm"
  proof -
    have "\<And>j. j \<in> set perm \<Longrightarrow> recs ! (nn_idx ! j) = nn ! j"
    proof -
      fix j assume "j \<in> set perm"
      then have j: "j < length nn_idx" using pset by simp
      then have "map (\<lambda>i. recs ! i) nn_idx ! j = recs ! (nn_idx ! j)" by simp
      then show "recs ! (nn_idx ! j) = nn ! j" unfolding t1 by simp
    qed
    then show ?thesis by simp
  qed
  then have "map (\<lambda>i. recs ! i) (map (\<lambda>i. nn_idx ! i) perm @ nan_idx) = sorted_records srt recs"
    unfolding sorted_records_def Let_def nn_def [symmetric] non_nans_def [symmetric]
      perm_def [symmetric] using t2 by simp
  with na b1 show ?thesis unfolding items_def by blast
qed

lemma ref_in_read_columns: "''_ref'' \<in> set (read_columns extra)"
  by (simp add: read_columns_def)

lemma reindex_row:
  "(\<lambda>(i, r). (i, r(''_ref'' := i))) ((\<lambda>(i, r). (r ''_ref'', r(''_ref'' := None))) p) = keyed (snd p)"
  by (cases p) (simp add: keyed_def ref_of_def)

lemma file_columns_set:
  "file_ok fs cols f \<Longrightarrow> set (file_columns fs cols f) = set cols"
  by (cases "fs f") (auto simp: file_ok_def file_columns_def list_all_iff)

lemma union_indexes_subset:
  "set (union_indexes css) \<subseteq> \<Union> (set ` set css)"
  by (induction css) auto

lemma union_indexes_same:
  assumes "\<forall>cs\<in>set css. set cs \<subseteq> set c0"
  shows "union_indexes (c0 # css) = c0"
proof -
  have "set (union_indexes css) \<subseteq> set c0"
    using union_indexes_subset [of css] assms by blast
  then have "filter (\<lambda>c. c \<notin> set c0) (union_indexes css) = []"
    by (auto simp: filter_empty_conv)
  then show ?thesis by simp
qed

lemma table_columns_set:
  assumes "F \<noteq> []" "list_all (file_ok fs cols) F" "''_ref'' \<in> set cols"
  shows "set (table_columns fs cols F) = set cols"
proof -
  from assms(1) obtain f rest where F: "F = f # rest" by (cases F) auto
  with assms(2) have "set (file_columns fs cols f) = set cols"
    by (simp add: file_columns_set)
  then show ?thesis using assms(3) by (auto simp: table_columns_def F)
qed

lemma load_ORG_data_ok:
  fixes fs :: "string \<rightharpoonup> 'a::linorder csv"
  assumes ok: "argsort_ok srt"
    and files: "list_all (file_ok fs (read_columns extra)) F" and ne: "F \<noteq> []"
  shows "load_ORG_data srt par F fs extra
     = Inr \<lparr>df_columns = table_columns fs (read_columns extra) F, df_index_name = Some ''_ref'',
            df_rows = map keyed (sorted_records srt (stored_records fs (read_columns extra) F))\<rparr>"
proof -
  define cols where "cols = read_columns extra"
  define recs where "recs = stored_records fs cols F"
  define data :: "(nat, 'a) dataframe list" where
    "data = map (\<lambda>f. \<lparr>df_columns = file_columns fs cols f, df_index_name = None,
                        df_rows = enumerate 0 (file_records fs cols f)\<rparr>) F"
  define rows0 where "rows0 = concat (map df_rows data)"
  have rd: "\<And>n. joblib_Parallel n (\<lambda>x. simple_CSV_read fs x cols) F = Inr data"
    unfolding data_def using files [folded cols_def] by (rule read_all_ok)
  have dne: "data \<noteq> []" using ne by (simp add: data_def)
  from ne obtain f0 rest where F: "F = f0 # rest" by (cases F) auto
  define cols0 where "cols0 = file_columns fs cols f0"
  have fc: "\<And>f. f \<in> set F \<Longrightarrow> set (file_columns fs cols f) = set cols"
    using files [folded cols_def] by (simp add: list_all_iff file_columns_set)
  have s0: "set cols0 = set cols" unfolding cols0_def using fc F by simp
  have "map df_columns data = cols0 # map (file_columns fs cols) rest"
    unfolding data_def F cols0_def by (simp add: comp_def)
  moreover have "\<forall>cs\<in>set (map (file_columns fs cols) rest). set cs \<subseteq> set cols0"
    unfolding s0 using fc F by auto
  ultimately have dcols: "union_indexes (map df_columns data) = cols0"
    by (simp only: union_indexes_same)
  have cc: "pd_concat data = Inr \<lparr>df_columns = cols0, df_index_name = None, df_rows = rows0\<rparr>"
    unfolding pd_concat_def rows0_def using dne dcols by simp
  have snd0: "map snd rows0 = recs"
    unfolding rows0_def recs_def stored_records_def data_def
    by (simp add: map_concat comp_def)
  have len0: "length rows0 = length recs"
    using arg_cong [OF snd0, of length] by simp
  have keys: "map (\<lambda>(i, r). r ''_ref'') rows0 = map ref_of recs"
    unfolding snd0 [symmetric] by (simp add: ref_of_def case_prod_beta)
  from nargsort_char [OF ok, of recs] obtain indexer where
    na: "nargsort srt (map ref_of recs) = Inr indexer"
    and bd: "\<forall>i\<in>set indexer. i < length recs"
    and sr: "map (\<lambda>i. recs ! i) indexer = sorted_records srt recs"
    by blast
  have tk: "np_take rows0 indexer = Inr (map (\<lambda>i. rows0 ! i) indexer)"
    using bd len0 by (simp add: np_take_def list_all_iff)
  have rin: "''_ref'' \<in> set cols0" unfolding s0 cols_def by (rule ref_in_read_columns)
  have sv: "sort_values srt ''_ref'' \<lparr>df_columns = cols0, df_index_name = None, df_rows = rows0\<rparr>
      = Inr \<lparr>df_columns = cols0, df_index_name = None, df_rows = map (\<lambda>i. rows0 ! i) indexer\<rparr>"
    unfolding sort_values_def using rin by (simp add: keys na tk)
  have fin: "map (\<lambda>(i, r). (i, r(''_ref'' := i)))
         (map (\<lambda>(i, r). (r ''_ref'', r(''_ref'' := None))) (map (\<lambda>i. rows0 ! i) indexer))
       = map keyed (sorted_records srt recs)"
  proof -
    have "map (\<lambda>(i, r). (i, r(''_ref'' := i)))
         (map (\<lambda>(i, r). (r ''_ref'', r(''_ref'' := None))) (map (\<lambda>i. rows0 ! i) indexer))
       = map (\<lambda>i. keyed (snd (rows0 ! i))) indexer"
      unfolding map_map comp_def reindex_row ..
    also have "\<dots> = map (\<lambda>i. keyed (recs ! i)) indexer"
    proof (intro map_cong refl)
      fix i assume "i \<in> set indexer"
      then have "i < length rows0" using bd len0 by simp
      then have "snd (rows0 ! i) = map snd rows0 ! i" by simp
      then show "keyed (snd (rows0 ! i)) = keyed (recs ! i)" unfolding snd0 by simp
    qed
    also have "\<dots> = map keyed (map (\<lambda>i. recs ! i) indexer)" by simp
    finally show ?thesis unfolding sr .
  qed
  define cols1 where "cols1 = filter (\<lambda>c. c \<noteq> ''_ref'') cols0"
  have ins: "cols1 @ [''_ref''] = table_columns fs cols F"
    unfolding cols1_def cols0_def table_columns_def F by simp
  define R1 where "R1 = map (\<lambda>i. rows0 ! i) indexer"
  have si: "set_index ''_ref'' \<lparr>df_columns = cols0, df_index_name = None, df_rows = R1\<rparr>
      = Inr \<lparr>df_columns = cols1, df_index_name = Some ''_ref'',
             df_rows = map (\<lambda>(i, r). (r ''_ref'', r(''_ref'' := None))) R1\<rparr>"
    using rin by (simp add: set_index_def cols1_def)
  have st: "setitem_index ''_ref'' \<lparr>df_columns = cols1, df_index_name = Some ''_ref'',
             df_rows = map (\<lambda>(i, r). (r ''_ref'', r(''_ref'' := None))) R1\<rparr>
      = \<lparr>df_columns = cols1 @ [''_ref''], df_index_name = Some ''_ref'',
         df_rows = map (\<lambda>(i, r). (i, r(''_ref'' := i)))
                     (map (\<lambda>(i, r). (r ''_ref'', r(''_ref'' := None))) R1)\<rparr>"
    unfolding setitem_index_def by (simp add: cols1_def)
  show ?thesis
    unfolding load_ORG_data_def Let_def read_columns_def [symmetric] cols_def [symmetric]
      recs_def [symmetric] rd
    by (simp only: cc sv R1_def [symmetric] si st sum.case)
      (simp only: R1_def fin ins)
qed

lemma load_ORG_data_bad:
  assumes "\<not> list_all (file_ok fs (read_columns extra)) F"
  shows "\<exists>e. load_ORG_data srt par F fs extra = Inl e"
proof -
  from read_all_bad [OF assms] obtain e where
    "joblib_Parallel (if par then - 1 else 1) (\<lambda>x. simple_CSV_read fs x (read_columns extra)) F = Inl e"
    by blast
  then show ?thesis
    unfolding load_ORG_data_def Let_def read_columns_def [symmetric] by simp
qed

lemma load_ORG_data_empty:
  "load_ORG_data srt par [] fs extra = Inl (ValueError Raised_by_library)"
  by (simp add: load_ORG_data_def joblib_Parallel_def pd_concat_def)

lemma take_argsort_key:
  assumes ok: "argsort_ok srt"
  shows "mset (map (\<lambda>i. xs ! i) (srt (map f xs))) = mset xs"
    and "sorted (map f (map (\<lambda>i. xs ! i) (srt (map f xs))))"
proof -
  have m: "mset (srt (map f xs)) = mset [0..<length xs]"
    using argsort_ok_mset [OF ok, of "map f xs"] by simp
  then show "mset (map (\<lambda>i. xs ! i) (srt (map f xs))) = mset xs"
    by (rule mset_take_perm)
  have "set (srt (map f xs)) = {0..<length xs}"
    using argsort_ok_set [OF ok, of "map f xs"] by simp
  then have "map (\<lambda>i. f (xs ! i)) (srt (map f xs)) = map (\<lambda>i. map f xs ! i) (srt (map f xs))"
    by (intro map_cong refl) simp
  then have "map f (map (\<lambda>i. xs ! i) (srt (map f xs))) = map (\<lambda>i. map f xs ! i) (srt (map f xs))"
    by (simp only: map_map comp_def)
  then show "sorted (map f (map (\<lambda>i. xs ! i) (srt (map f xs))))"
    using argsort_ok_sorted [OF ok, of "map f xs"] by (simp only:)
qed

lemma sorted_records_mset:
  assumes ok: "argsort_ok srt"
  shows "mset (sorted_records srt recs) = mset recs"
proof -
  let ?nn = "filter (\<lambda>r. ref_of r \<noteq> None) recs"
  have "mset (sorted_records srt recs) = mset ?nn + mset (filter (\<lambda>r. ref_of r = None) recs)"
    unfolding sorted_records_def Let_def
    using take_argsort_key(1) [OF ok, of ?nn "\<lambda>r. the (ref_of r)"] by simp
  also have "\<dots> = mset recs"
    using multiset_partition [of "mset recs" "\<lambda>r. ref_of r \<noteq> None"] by simp
  finally show ?thesis .
qed

lemma ascending_nan_last_char:
  "ascending_nan_last (map Some vs @ replicate k None) \<longleftrightarrow> sorted vs"
proof -
  have t: "takeWhile (\<lambda>k. k \<noteq> None) (map Some vs @ replicate k None) = map Some vs"
    by (induction vs) (simp_all add: takeWhile_replicate)
  have d: "dropWhile (\<lambda>k. k \<noteq> None) (map Some vs @ replicate k None) = replicate k None"
    by (induction vs) (simp_all add: dropWhile_replicate)
  show ?thesis unfolding ascending_nan_last_def t d
    by (simp add: comp_def list_all_iff)
qed

lemma sorted_records_refs:
  assumes ok: "argsort_ok srt"
  shows "\<exists>vs k. map ref_of (sorted_records srt recs) = map Some vs @ replicate k None \<and> sorted vs"
proof -
  let ?nn = "filter (\<lambda>r. ref_of r \<noteq> None) recs"
  let ?f = "\<lambda>r. the (ref_of r)"
  let ?A = "map (\<lambda>i. ?nn ! i) (srt (map ?f ?nn))"
  let ?B = "filter (\<lambda>r. ref_of r = None) recs"
  have sA: "set ?A \<subseteq> set ?nn"
    using take_argsort_key(1) [OF ok, of ?nn ?f] by (metis mset_eq_setD order_refl)
  have "map ref_of ?A = map Some (map ?f ?A)"
    unfolding map_map comp_def using sA by (intro map_cong refl) auto
  moreover have "map ref_of ?B = replicate (length ?B) None"
    by (simp add: map_replicate_const [symmetric] cong: map_cong)
  moreover have "sorted (map ?f ?A)" using ok by (rule take_argsort_key(2))
  ultimately show ?thesis
    unfolding sorted_records_def Let_def by (metis map_append)
qed

lemma sorted_records_ascending:
  "argsort_ok srt \<Longrightarrow> ascending_nan_last (map ref_of (sorted_records srt recs))"
  using sorted_records_refs [of srt recs] by (auto simp: ascending_nan_last_char)

lemma distinct_filter_const:
  assumes "distinct (map f xs)"
  shows "length (filter (\<lambda>x. f x = c) xs) \<le> 1"
  using assms
proof (induction xs)
  case Nil
  then show ?case by simp
next
  case (Cons x xs)
  show ?case
  proof (cases "f x = c")
    case True
    have "f x \<notin> f ` set xs" using Cons.prems by simp
    then have "\<And>y. y \<in> set xs \<Longrightarrow> f y \<noteq> c" unfolding True [symmetric] by (metis imageI)
    then have "filter (\<lambda>x. f x = c) xs = []" by (simp add: filter_empty_conv)
    with True show ?thesis by simp
  next
    case False
    with Cons show ?thesis by simp
  qed
qed

lemma short_mset_eq:
  assumes "mset xs = mset ys" "length xs \<le> 1"
  shows "xs = ys"
proof (cases xs)
  case Nil
  with assms(1) show ?thesis by simp
next
  case (Cons x xs')
  with assms(2) have xs: "xs = [x]" by simp
  with assms(1) have "mset ys = {#x#}" by simp
  then have "ys = [x]" by (simp only: mset_single_iff)
  with xs show ?thesis by simp
qed

lemma sorted_records_unique:
  fixes recs :: "(string \<rightharpoonup> 'a::linorder) list"
  assumes ok: "argsort_ok srt" and ok': "argsort_ok srt'"
    and m: "mset recs' = mset recs"
    and d: "distinct (map ref_of recs)"
  shows "sorted_records srt recs = sorted_records srt' recs'"
proof -
  let ?P = "\<lambda>r::(string \<rightharpoonup> 'a). ref_of r \<noteq> None"
  let ?f = "\<lambda>r::(string \<rightharpoonup> 'a). the (ref_of r)"
  let ?nn = "filter ?P recs" and ?nn' = "filter ?P recs'"
  let ?A = "map (\<lambda>i. ?nn ! i) (srt (map ?f ?nn))"
  let ?A' = "map (\<lambda>i. ?nn' ! i) (srt' (map ?f ?nn'))"
  let ?B = "filter (\<lambda>r. ref_of r = None) recs" and ?B' = "filter (\<lambda>r. ref_of r = None) recs'"
  have mn: "mset ?nn' = mset ?nn" using m by simp
  have mA: "mset ?A = mset ?nn" using ok by (rule take_argsort_key(1))
  have mA': "mset ?A' = mset ?nn'" using ok' by (rule take_argsort_key(1))
  have dn: "distinct (map ref_of ?nn)" using d by (rule distinct_map_filter)
  have "map ref_of ?nn = map Some (map ?f ?nn)"
    unfolding map_map comp_def by (intro map_cong refl) auto
  with dn have "distinct (map Some (map ?f ?nn))" by (simp only:)
  then have dfn: "distinct (map ?f ?nn)"
    using distinct_map [of Some "map ?f ?nn"] by blast
  have "mset (map ?f ?A) = mset (map ?f ?nn)"
    using arg_cong [OF mA, of "image_mset ?f"] by (simp only: mset_map)
  then have dA: "distinct (map ?f ?A)" using dfn mset_eq_imp_distinct_iff by blast
  have "mset ?A = mset ?A'" using mA mA' mn by simp
  moreover note dA
  moreover have "sorted (map ?f ?A)" using ok by (rule take_argsort_key(2))
  moreover have "sorted (map ?f ?A')" using ok' by (rule take_argsort_key(2))
  ultimately have eA: "?A = ?A'" by (rule sorted_arrangement_unique)
  have mB: "mset ?B = mset ?B'" using m by simp
  have "length ?B \<le> 1" using d by (rule distinct_filter_const)
  with mB have eB: "?B = ?B'" by (rule short_mset_eq)
  show ?thesis unfolding sorted_records_def Let_def using eA eB by simp
qed

lemma stored_records_perm:
  "mset F' = mset F \<Longrightarrow> mset (stored_records fs cols F') = mset (stored_records fs cols F)"
  unfolding stored_records_def by (rule mset_concat_map_perm)

lemma load_ORG_data_perm:
  fixes fs :: "string \<rightharpoonup> 'a::linorder csv"
  assumes ok: "argsort_ok srt" and ok': "argsort_ok srt'"
    and m: "mset F' = mset F"
    and d: "distinct (map ref_of (stored_records fs (read_columns extra) F))"
  shows "(load_ORG_data srt par F fs extra = Inr df \<longrightarrow>
            df_columns df = table_columns fs (read_columns extra) F \<and>
            load_ORG_data srt' par' F' fs extra
              = Inr (df\<lparr>df_columns := table_columns fs (read_columns extra) F'\<rparr>))
       \<and> (isl (load_ORG_data srt par F fs extra) \<longleftrightarrow> isl (load_ORG_data srt' par' F' fs extra))"
proof -
  define cols where "cols = read_columns extra"
  have s: "set F' = set F" using m by (rule mset_eq_setD)
  have e: "F' = [] \<longleftrightarrow> F = []" using m by (metis mset_zero_iff)
  have fo: "list_all (file_ok fs cols) F' \<longleftrightarrow> list_all (file_ok fs cols) F"
    using s by (simp add: list_all_iff)
  show ?thesis
  proof (cases "list_all (file_ok fs cols) F \<and> F \<noteq> []")
    case True
    then have T: "list_all (file_ok fs (read_columns extra)) F" "F \<noteq> []"
      and T': "list_all (file_ok fs (read_columns extra)) F'" "F' \<noteq> []"
      using fo e by (simp_all add: cols_def)
    have "sorted_records srt (stored_records fs (read_columns extra) F)
        = sorted_records srt' (stored_records fs (read_columns extra) F')"
      using ok ok' stored_records_perm [OF m] d by (rule sorted_records_unique)
    then show ?thesis
      unfolding load_ORG_data_ok [OF ok T] load_ORG_data_ok [OF ok' T'] by auto
  next
    case False
    then consider "\<not> list_all (file_ok fs cols) F" | "F = []" by blast
    then show ?thesis
    proof cases
      case 1
      then have 2: "\<not> list_all (file_ok fs cols) F'" using fo by simp
      from load_ORG_data_bad [OF 1 [unfolded cols_def], of srt par]
           load_ORG_data_bad [OF 2 [unfolded cols_def], of srt' par']
      show ?thesis by auto
    next
      case 2
      then have "F' = []" using e by simp
      with 2 show ?thesis by (simp add: load_ORG_data_empty)
    qed
  qed
qed

lemmas loader_example_simps =
  csv_files_def csv_a_def csv_b_def csv_c_def csv_p_def csv_q_def
  read_columns_def file_ok_def file_records_def stored_records_def ref_of_def keyed_def
  sorted_records_def argsort_stable_def argsort_reversing_def upt_rec restrict_map_def
  table_columns_def file_columns_def

lemma load_ORG_data_Inr:
  fixes fs :: "string \<rightharpoonup> 'a::linorder csv"
  assumes ok: "argsort_ok srt" and r: "load_ORG_data srt par F fs extra = Inr df"
  shows "list_all (file_ok fs (read_columns extra)) F" and "F \<noteq> []"
    and "df = \<lparr>df_columns = table_columns fs (read_columns extra) F, df_index_name = Some ''_ref'',
            df_rows = map keyed (sorted_records srt (stored_records fs (read_columns extra) F))\<rparr>"
proof -
  show 1: "list_all (file_ok fs (read_columns extra)) F"
    using load_ORG_data_bad [of fs extra F srt par] r by auto
  show 2: "F \<noteq> []"
    using load_ORG_data_empty [of srt par fs extra] r by auto
  show "df = \<lparr>df_columns = table_columns fs (read_columns extra) F, df_index_name = Some ''_ref'',
            df_rows = map keyed (sorted_records srt (stored_records fs (read_columns extra) F))\<rparr>"
    using load_ORG_data_ok [OF ok 1 2, of par] r by simp
qed

lemma keyed_rows:
  "list_all (\<lambda>(i, r). r ''_ref'' = i) (map keyed rs)"
  "map fst (map keyed rs) = map ref_of rs"
  "map snd (map keyed rs) = rs"
  by (simp_all add: list_all_iff keyed_def ref_of_def comp_def)

lemma read_columns_set:
  "set (read_columns extra) = insert ''_ref'' (case extra of None \<Rightarrow> {} | Some ec \<Rightarrow> set ec)"
  by (cases extra) (simp_all add: read_columns_def)

lemma stored_records_dom:
  assumes "r \<in> set (stored_records fs cols F)"
  shows "dom r \<subseteq> set cols"
proof -
  from assms obtain f where "r \<in> set (file_records fs cols f)"
    by (auto simp: stored_records_def)
  then obtain r0 where "r = r0 |` set cols"
    by (cases "fs f") (auto simp: file_records_def)
  then show ?thesis by auto
qed

lemma three_files_stable:
  "load_ORG_data argsort_stable par [''a.csv'', ''b.csv'', ''c.csv''] csv_files (Some [''x''])
     = Inr \<lparr>df_columns = [''x'', ''_ref''], df_index_name = Some ''_ref'',
            df_rows = map keyed
              [[''_ref'' \<mapsto> 1, ''x'' \<mapsto> 10], [''_ref'' \<mapsto> 2, ''x'' \<mapsto> 20],
               [''_ref'' \<mapsto> 3, ''x'' \<mapsto> 30], [''_ref'' \<mapsto> 4, ''x'' \<mapsto> 40]]\<rparr>"
proof -
  have f: "list_all (file_ok csv_files (read_columns (Some [''x'']))) [''a.csv'', ''b.csv'', ''c.csv'']"
    by (simp add: loader_example_simps)
  have r: "\<And>a b. [''_ref'' \<mapsto> a, ''x'' \<mapsto> b] |` {''_ref'', ''x''} = [''_ref'' \<mapsto> a, ''x'' \<mapsto> (b::int)]"
    by (auto simp: restrict_map_def fun_eq_iff)
  have s: "stored_records csv_files (read_columns (Some [''x''])) [''a.csv'', ''b.csv'', ''c.csv'']
    = [[''_ref'' \<mapsto> 3, ''x'' \<mapsto> 30], [''_ref'' \<mapsto> 1, ''x'' \<mapsto> 10],
       [''_ref'' \<mapsto> 2, ''x'' \<mapsto> 20], [''_ref'' \<mapsto> 4, ''x'' \<mapsto> 40]]"
    by (simp add: csv_files_def csv_a_def csv_b_def csv_c_def read_columns_def file_records_def
        stored_records_def r)
  have t: "sorted_records argsort_stable
      [[''_ref'' \<mapsto> 3, ''x'' \<mapsto> 30], [''_ref'' \<mapsto> 1, ''x'' \<mapsto> 10],
       [''_ref'' \<mapsto> 2, ''x'' \<mapsto> 20], [''_ref'' \<mapsto> 4, ''x'' \<mapsto> (40::int)]]
     = [[''_ref'' \<mapsto> 1, ''x'' \<mapsto> 10], [''_ref'' \<mapsto> 2, ''x'' \<mapsto> 20],
               [''_ref'' \<mapsto> 3, ''x'' \<mapsto> 30], [''_ref'' \<mapsto> 4, ''x'' \<mapsto> 40]]"
    by (simp add: sorted_records_def ref_of_def argsort_stable_def upt_rec)
  have c: "table_columns csv_files (read_columns (Some [''x''])) [''a.csv'', ''b.csv'', ''c.csv'']
    = [''x'', ''_ref'']"
    by (simp add: table_columns_def file_columns_def csv_files_def csv_a_def read_columns_def)
  show ?thesis
    unfolding load_ORG_data_ok [OF argsort_ok_stable f, simplified] s t c ..
qed

lemma three_files_any_sort:
  assumes ok: "argsort_ok srt"
  shows "load_ORG_data srt par [''a.csv'', ''b.csv'', ''c.csv''] csv_files (Some [''x''])
     = Inr \<lparr>df_columns = [''x'', ''_ref''], df_index_name = Some ''_ref'',
            df_rows = map keyed
              [[''_ref'' \<mapsto> 1, ''x'' \<mapsto> 10], [''_ref'' \<mapsto> 2, ''x'' \<mapsto> 20],
               [''_ref'' \<mapsto> 3, ''x'' \<mapsto> 30], [''_ref'' \<mapsto> 4, ''x'' \<mapsto> 40]]\<rparr>"
proof -
  have d: "distinct (map ref_of (stored_records csv_files (read_columns (Some [''x'']))
             [''a.csv'', ''b.csv'', ''c.csv'']))"
    by (simp add: loader_example_simps)
  have c: "table_columns csv_files (read_columns (Some [''x''])) [''a.csv'', ''b.csv'', ''c.csv'']
    = [''x'', ''_ref'']"
    by (simp add: table_columns_def file_columns_def csv_files_def csv_a_def read_columns_def)
  from load_ORG_data_perm [OF argsort_ok_stable ok refl d, of par _ par] three_files_stable [of par]
  show ?thesis unfolding c by simp
qed


section \<open>Facts about the store operations\<close>

lemma read_keys_frame:
  "disk (snd (read_keys f h5 keys data w)) = disk w \<and>
   handles (snd (read_keys f h5 keys data w)) = handles w"
proof (induction keys arbitrary: data w)
  case Nil
  then show ?case by simp
next
  case (Cons key keys)
  show ?case
  proof (cases "h5_read h5 key")
    case (Inl e)
    then show ?thesis by simp
  next
    case (Inr d)
    have "disk (w\<lparr>log := log w @ [Read f key]\<rparr>) = disk w"
      "handles (w\<lparr>log := log w @ [Read f key]\<rparr>) = handles w" by simp_all
    then show ?thesis
      unfolding read_keys.simps Inr sum.case
      using Cons.IH [of "data(key \<mapsto> d)" "w\<lparr>log := log w @ [Read f key]\<rparr>"]
      by (simp only:)
  qed
qed

lemma read_keys_ok:
  assumes "\<forall>key\<in>set keys. dataset_of h5 key \<noteq> None"
  shows "read_keys f h5 keys data w =
     (Inr (\<lambda>k. if k \<in> set keys then dataset_of h5 k else data k),
      w\<lparr>log := log w @ map (Read f) keys\<rparr>)"
  using assms
proof (induction keys arbitrary: data w)
  case Nil
  then show ?case by simp
next
  case (Cons key keys)
  from Cons.prems obtain d where d: "dataset_of h5 key = Some d" by auto
  then have r: "h5_read h5 key = Inr d"
    by (auto simp: dataset_of_def h5_read_def split: option.splits node.splits)
  have IH: "read_keys f h5 keys (data(key \<mapsto> d)) (w\<lparr>log := log w @ [Read f key]\<rparr>) =
     (Inr (\<lambda>k. if k \<in> set keys then dataset_of h5 k else (data(key \<mapsto> d)) k),
      (w\<lparr>log := log w @ [Read f key]\<rparr>)\<lparr>log := log (w\<lparr>log := log w @ [Read f key]\<rparr>) @ map (Read f) keys\<rparr>)"
    using Cons.prems by (intro Cons.IH) simp
  have m: "(\<lambda>k. if k \<in> set keys then dataset_of h5 k else (data(key \<mapsto> d)) k)
         = (\<lambda>k. if k \<in> set (key # keys) then dataset_of h5 k else data k)"
    using d by (auto simp: fun_eq_iff)
  show ?case unfolding read_keys.simps r sum.case IH m by simp
qed

lemma load_h5_file_open:
  assumes "disk w f = Some (H5 h5)"
  shows "load_h5_file f args w =
     (let args' = (if args = [] then h5_keys h5 else args);
          w1 = w\<lparr>handles := (f, Mode_r) # handles w, log := log w @ [Opened f Mode_r]\<rparr>;
          (result, w2) =
                 (case find (\<lambda>key. \<not> h5_contains h5 key) args' of
                    Some key \<Rightarrow> (Inl (ValueError (Not_found_in key f)), w1)
                  | None \<Rightarrow> read_keys f h5 args' Map.empty w1)
      in (result, h5_close f Mode_r w2))"
  using assms by (simp add: load_h5_file_def h5py_File_r Let_def)

lemma load_h5_file_missing:
  assumes d: "disk w f = Some (H5 h5)" and a: "args \<noteq> []"
    and fi: "find (\<lambda>key. \<not> h5_contains h5 key) args = Some key"
  shows "load_h5_file f args w =
     (Inl (ValueError (Not_found_in key f)), w\<lparr>log := log w @ [Opened f Mode_r, Closed f Mode_r]\<rparr>)"
  unfolding load_h5_file_open [OF d] Let_def using a fi
  by (simp add: h5_close_def)

lemma load_h5_file_present:
  assumes d: "disk w f = Some (H5 h5)"
    and keys: "keys = (if args = [] then h5_keys h5 else args)"
    and p: "\<forall>key\<in>set keys. dataset_of h5 key \<noteq> None"
  shows "load_h5_file f args w =
     (Inr (\<lambda>k. if k \<in> set keys then dataset_of h5 k else None),
      w\<lparr>log := log w @ [Opened f Mode_r] @ map (Read f) keys @ [Closed f Mode_r]\<rparr>)"
proof -
  have c: "\<And>key. key \<in> set keys \<Longrightarrow> h5_contains h5 key"
  proof -
    fix key assume "key \<in> set keys"
    with p have "dataset_of h5 key \<noteq> None" by blast
    then have "map_of h5 key \<noteq> None"
      by (cases "map_of h5 key") (simp_all add: dataset_of_def)
    then show "h5_contains h5 key"
      by (simp add: h5_contains_def h5_keys_def map_of_eq_None_iff)
  qed
  then have fi: "find (\<lambda>key. \<not> h5_contains h5 key) keys = None"
    by (simp add: find_None_iff)
  show ?thesis
    unfolding load_h5_file_open [OF d] Let_def keys [symmetric] fi
    by (simp add: read_keys_ok [OF p] h5_close_def)
qed

lemma load_h5_file_frame:
  "disk (snd (load_h5_file f args w)) = disk w \<and> handles (snd (load_h5_file f args w)) = handles w"
proof (cases "\<exists>h5. disk w f = Some (H5 h5)")
  case False
  then have "h5py_File f Mode_r w = (Inl (OSError f), w)"
    unfolding h5py_File_r by (auto split: option.splits fsobj.splits)
  then show ?thesis by (simp add: load_h5_file_def)
next
  case True
  then obtain h5 where d: "disk w f = Some (H5 h5)" by blast
  define args' where "args' = (if args = [] then h5_keys h5 else args)"
  define w1 where "w1 = w\<lparr>handles := (f, Mode_r) # handles w, log := log w @ [Opened f Mode_r]\<rparr>"
  define rw where "rw = (case find (\<lambda>key. \<not> h5_contains h5 key) args' of
                    Some key \<Rightarrow> (Inl (ValueError (Not_found_in key f)), w1)
                  | None \<Rightarrow> read_keys f h5 args' Map.empty w1)"
  have l: "load_h5_file f args w = (fst rw, h5_close f Mode_r (snd rw))"
    unfolding load_h5_file_open [OF d] Let_def args'_def [symmetric] w1_def [symmetric]
      rw_def [symmetric] by (simp add: case_prod_beta)
  have "disk (snd rw) = disk w1 \<and> handles (snd rw) = handles w1"
    unfolding rw_def using read_keys_frame [of f h5 args' Map.empty w1]
    by (cases "find (\<lambda>key. \<not> h5_contains h5 key) args'") simp_all
  then show ?thesis unfolding l by (simp add: h5_close_def w1_def)
qed

lemma save_h5_char:
  "save_h5 h5 col data c = Inr (filter (\<lambda>(name, n). name \<noteq> col) h5 @ [(col, Dataset data)])"
proof (cases "h5_contains h5 col")
  case True
  have "\<not> h5_contains (h5_delete h5 col) col"
    by (auto simp: h5_contains_def h5_keys_def h5_delete_def)
  with True show ?thesis
    by (simp add: save_h5_def h5_create_dataset_def h5_delete_def)
next
  case False
  then have "\<And>p. p \<in> set h5 \<Longrightarrow> fst p \<noteq> col"
    unfolding h5_contains_def h5_keys_def by (metis image_eqI set_map)
  then have "filter (\<lambda>(name, n). name \<noteq> col) h5 = h5"
    by (simp add: filter_id_conv case_prod_beta)
  with False show ?thesis
    by (simp add: save_h5_def h5_create_dataset_def)
qed

lemma map_of_filter_out:
  "map_of (filter (\<lambda>(name, n). name \<noteq> col) h5) col = None"
  by (induction h5) auto

lemma h5_read_saved:
  "h5_read (filter (\<lambda>(name, n). name \<noteq> col) h5 @ [(col, Dataset data)]) col = Inr data"
  by (simp add: h5_read_def map_add_def map_of_filter_out)

lemma h5py_File_frame:
  "handles (snd (h5py_File f md w)) =
     (if isl (fst (h5py_File f md w)) then handles w else (f, md) # handles w)"
  by (cases md; cases "disk w f")
    (auto simp: h5py_File_def split: option.splits fsobj.splits)

lemma get_score_methods_frame:
  "handles (snd (get_score_methods f w)) = handles w"
proof (cases "\<exists>h5. disk w f = Some (H5 h5)")
  case True
  then show ?thesis
    by (auto simp: get_score_methods_def h5py_File_r h5_close_def)
next
  case False
  then have "h5py_File f Mode_r w = (Inl (OSError f), w)"
    unfolding h5py_File_r by (auto split: option.splits fsobj.splits)
  then show ?thesis by (simp add: get_score_methods_def)
qed

lemma load_document_vectors_frame:
  "handles (snd (load_document_vectors srt f m u w)) = handles w"
proof (cases "\<exists>h5. disk w f = Some (H5 h5)")
  case True
  then show ?thesis
    by (auto simp: load_document_vectors_def h5py_File_r h5_close_def)
next
  case False
  then have "h5py_File f Mode_r w = (Inl (OSError f), w)"
    unfolding h5py_File_r by (auto split: option.splits fsobj.splits)
  then show ?thesis by (simp add: load_document_vectors_def)
qed

lemma touch_h5_frame:
  "handles (snd (touch_h5 f w)) =
     (if isl (fst (touch_h5 f w)) then handles w
      else (f, if disk w f = None then Mode_w else Mode_r_plus) # handles w)"
  unfolding touch_h5_def by (simp add: h5py_File_frame)

lemma get_h5save_object_frame:
  "\<not> isl (fst (get_h5save_object f m w)) \<Longrightarrow>
   handles (snd (get_h5save_object f m w))
     = (f, if disk w f = None then Mode_w else Mode_r_plus) # handles w"
proof -
  assume a: "\<not> isl (fst (get_h5save_object f m w))"
  obtain r w1 where t: "touch_h5 f w = (r, w1)" by (cases "touch_h5 f w")
  with a obtain h5 where r: "r = Inr h5"
    by (cases r) (auto simp: get_h5save_object_def)
  from a t r obtain g h5' where q: "h5_require_group h5 m = Inr (g, h5')"
    by (cases "h5_require_group h5 m") (auto simp: get_h5save_object_def)
  have "handles w1 = (f, if disk w f = None then Mode_w else Mode_r_plus) # handles w"
    using touch_h5_frame [of f w] t r by simp
  then show ?thesis
    by (simp add: get_h5save_object_def t r q)
qed


section \<open>Duplicated reference ids\<close>

text \<open>
  Reference ids that repeat do not stop a load and no row is lost: under any sort that
  keeps numpy's promise both loaders return every stored row, as often as it is stored,
  in ascending order of \<^verbatim>\<open>_ref\<close>. The order among rows of equal \<^verbatim>\<open>_ref\<close> is the
  one the sort gives them; the module asks for no particular one.
\<close>

lemma duplicates_kept:
  fixes fs :: "string \<rightharpoonup> 'a::linorder csv"
  assumes ok: "argsort_ok srt" and nok: "argsort_ok nsrt"
  shows "(list_all (file_ok fs (read_columns extra)) F \<and> F \<noteq> [] \<longrightarrow>
            (\<exists>df. load_ORG_data srt par F fs extra = Inr df \<and>
                  mset (map snd (df_rows df)) = mset (stored_records fs (read_columns extra) F) \<and>
                  ascending_nan_last (map fst (df_rows df)))) \<and>
         (disk w f = Some (H5 h5) \<and> map_of h5 m = Some g \<and> g \<noteq> [] \<and>
          list_all (\<lambda>(k, sh). shard_ok (if u then ''VX'' else ''V'') sh) g \<and>
          same_width (if u then ''VX'' else ''V'') g \<and>
          stored_rows (if u then ''VX'' else ''V'') g \<noteq> [] \<longrightarrow>
            (\<exists>res. fst (load_document_vectors nsrt f m u w) = Inr res \<and>
                   mset (zip (refs res) (arows (docv res)))
                     = mset (stored_pairs (if u then ''VX'' else ''V'') g) \<and>
                   mset (refs res) = mset (stored_refs g) \<and>
                   sorted (refs res)))"
proof (intro conjI impI)
  assume a: "list_all (file_ok fs (read_columns extra)) F \<and> F \<noteq> []"
  let ?S = "sorted_records srt (stored_records fs (read_columns extra) F)"
  let ?df = "\<lparr>df_columns = table_columns fs (read_columns extra) F, df_index_name = Some ''_ref'',
            df_rows = map keyed ?S\<rparr>"
  have 1: "load_ORG_data srt par F fs extra = Inr ?df"
    using ok a by (simp add: load_ORG_data_ok)
  have r: "df_rows ?df = map keyed ?S" by simp
  have 2: "mset (map snd (df_rows ?df)) = mset (stored_records fs (read_columns extra) F)"
    unfolding r keyed_rows using ok by (rule sorted_records_mset)
  have 3: "ascending_nan_last (map fst (df_rows ?df))"
    unfolding r keyed_rows using ok by (rule sorted_records_ascending)
  from 1 2 3 show "\<exists>df. load_ORG_data srt par F fs extra = Inr df \<and>
                  mset (map snd (df_rows df)) = mset (stored_records fs (read_columns extra) F) \<and>
                  ascending_nan_last (map fst (df_rows df))"
    by blast
next
  define key where "key = (if u then ''VX'' else ''V'')"
  assume "disk w f = Some (H5 h5) \<and> map_of h5 m = Some g \<and> g \<noteq> [] \<and>
          list_all (\<lambda>(k, sh). shard_ok (if u then ''VX'' else ''V'') sh) g \<and>
          same_width (if u then ''VX'' else ''V'') g \<and>
          stored_rows (if u then ''VX'' else ''V'') g \<noteq> []"
  then have a: "disk w f = Some (H5 h5)" "map_of h5 m = Some g" "g \<noteq> []"
      "list_all (\<lambda>(k, sh). shard_ok key sh) g" "same_width key g" "stored_rows key g \<noteq> []"
    unfolding key_def by simp_all
  define res where "res = assembled nsrt (stored_refs g) (stored_rows key g)"
  note l = load_document_vectors_ok [OF nok a key_def]
  have 1: "fst (load_document_vectors nsrt f m u w) = Inr res"
    unfolding res_def by (rule l(1))
  have 2: "mset (zip (refs res) (arows (docv res))) = mset (stored_pairs key g)"
    unfolding res_def l(2) using nok l(3) by (rule assembled_mset)
  have 3: "mset (refs res) = mset (stored_refs g)"
    unfolding res_def using nok by (rule assembled_refs_mset)
  have 4: "sorted (refs res)" unfolding res_def using nok by (rule assembled_sorted)
  from 1 2 3 4 show "\<exists>res. fst (load_document_vectors nsrt f m u w) = Inr res \<and>
                   mset (zip (refs res) (arows (docv res)))
                     = mset (stored_pairs (if u then ''VX'' else ''V'') g) \<and>
                   mset (refs res) = mset (stored_refs g) \<and>
                   sorted (refs res)"
    unfolding key_def by blast
qed

section \<open>The claims\<close>


text \<open>
  C1, at a score-method group whose one shard holds no document (both datasets present,
  no rows). The set of shards is not empty and satisfies the shard invariant, so the
  claim asks for the sorted reference array and the matrix aligned with it, both without
  rows. The code stacks the reference ids and the vectors, passes its assertion, sorts,
  and takes the sorted reference ids; then \<^verbatim>\<open>np.vstack(X)\<close> in
  \<^verbatim>\<open>X = np.vstack(X)[sort_idx]\<close> stacks the rows of the matrix that is stacked
  already, finds no row and raises \<^verbatim>\<open>ValueError\<close>, so the call raises instead of
  returning.
\<close>

theorem assembler_empty_shard_raises:
  "shard_ok ''V'' shard_empty \<and>
   hstack_refs [(''e'', shard_empty)] = Inr [] \<and>
   vstack_vectors ''V'' [(''e'', shard_empty)] = Inr (Array2 2 []) \<and>
   nrows (Array2 2 ([] :: int list list)) = length ([] :: int list) \<and>
   np_take ([] :: int list) (argsort_stable ([] :: int list)) = Inr [] \<and>
   np_vstack (map atleast_2d (arows (Array2 2 ([] :: int list list))))
     = Inl (ValueError Raised_by_library) \<and>
   fst (load_document_vectors argsort_stable ''score.h5'' ''unigram'' False
          (score_world [(''e'', shard_empty)])) = Inl (ValueError Raised_by_library)"
  by (simp add: example_simps shard_empty_def shard_ok_def)

text \<open>
  C2 (amended). Take two enumerations of the same files (or shards), one a permutation of
  the other, with pairwise distinct \<^verbatim>\<open>_ref\<close> values, and any two sorts that keep
  numpy's promise. For \<^verbatim>\<open>load_ORG_data\<close>, whatever the two values of
  \<^verbatim>\<open>config["_PARALLEL"]\<close>: the call fails for one enumeration exactly when it fails
  for the other, and when a table is returned for one, a table is returned for the other
  with the same rows in the same order (index labels and cells), the same index name and
  the same set of columns. The left-to-right order of the columns is the one thing that
  follows the enumeration: the payload columns stand in the order of the header of the
  file enumerated first, then \<^verbatim>\<open>_ref\<close>; so the two tables are equal whenever the two
  first files list the requested columns in the same order. For
  \<^verbatim>\<open>load_document_vectors\<close> (shards as in the data model: where a shard holds both
  datasets, they have the same number of rows): the two calls give the same outcome,
  result or exception.
\<close>

theorem order_independence:
  fixes fs :: "string \<rightharpoonup> 'a::linorder csv"
  assumes ok: "argsort_ok srt" and ok': "argsort_ok srt'"
    and nok: "argsort_ok nsrt" and nok': "argsort_ok nsrt'"
  shows "(mset F' = mset F \<and>
          distinct (map ref_of (stored_records fs (read_columns extra) F)) \<longrightarrow>
            (load_ORG_data srt par F fs extra = Inr df \<longrightarrow>
               (\<exists>df'. load_ORG_data srt' par' F' fs extra = Inr df' \<and>
                  df_rows df' = df_rows df \<and>
                  df_index_name df' = df_index_name df \<and>
                  set (df_columns df') = set (df_columns df) \<and>
                  df_columns df = table_columns fs (read_columns extra) F \<and>
                  df_columns df' = table_columns fs (read_columns extra) F' \<and>
                  (table_columns fs (read_columns extra) F' = table_columns fs (read_columns extra) F
                     \<longrightarrow> df' = df))) \<and>
            (isl (load_ORG_data srt par F fs extra)
               \<longleftrightarrow> isl (load_ORG_data srt' par' F' fs extra))) \<and>
         (disk w f = Some (H5 h5) \<and> disk w' f = Some (H5 h5') \<and>
          map_of h5 m = Some g \<and> map_of h5' m = Some g' \<and> mset g' = mset g \<and>
          list_all (\<lambda>(k, sh). shard_aligned (if u then ''VX'' else ''V'') sh) g \<and>
          distinct (stored_refs g) \<longrightarrow>
            fst (load_document_vectors nsrt f m u w)
              = fst (load_document_vectors nsrt' f m u w'))"
proof (intro conjI impI)
  assume a: "mset F' = mset F \<and> distinct (map ref_of (stored_records fs (read_columns extra) F))"
  note p = load_ORG_data_perm [OF ok ok' conjunct1 [OF a] conjunct2 [OF a], of par df par']
  assume r: "load_ORG_data srt par F fs extra = Inr df"
  let ?C = "table_columns fs (read_columns extra) F"
  let ?C' = "table_columns fs (read_columns extra) F'"
  define df' where "df' = df\<lparr>df_columns := ?C'\<rparr>"
  from p r have c: "df_columns df = ?C"
    and r': "load_ORG_data srt' par' F' fs extra = Inr df'"
    unfolding df'_def by simp_all
  have "set ?C = set (read_columns extra)"
    using load_ORG_data_Inr(2,1) [OF ok r] ref_in_read_columns by (rule table_columns_set)
  moreover have "set ?C' = set (read_columns extra)"
    using load_ORG_data_Inr(2,1) [OF ok' r'] ref_in_read_columns by (rule table_columns_set)
  ultimately have 1: "set (df_columns df') = set (df_columns df)"
    unfolding c df'_def by simp
  have 2: "df_rows df' = df_rows df" "df_index_name df' = df_index_name df"
    "df_columns df' = ?C'"
    unfolding df'_def by simp_all
  have 3: "?C' = ?C \<longrightarrow> df' = df"
    unfolding df'_def using c by simp
  from r' 1 2 3 c
  show "\<exists>df'. load_ORG_data srt' par' F' fs extra = Inr df' \<and>
                  df_rows df' = df_rows df \<and>
                  df_index_name df' = df_index_name df \<and>
                  set (df_columns df') = set (df_columns df) \<and>
                  df_columns df = table_columns fs (read_columns extra) F \<and>
                  df_columns df' = table_columns fs (read_columns extra) F' \<and>
                  (table_columns fs (read_columns extra) F' = table_columns fs (read_columns extra) F
                     \<longrightarrow> df' = df)"
    by blast
next
  assume a: "mset F' = mset F \<and> distinct (map ref_of (stored_records fs (read_columns extra) F))"
  note p = load_ORG_data_perm [OF ok ok' conjunct1 [OF a] conjunct2 [OF a], of par df par']
  then show "isl (load_ORG_data srt par F fs extra) \<longleftrightarrow> isl (load_ORG_data srt' par' F' fs extra)"
    by blast
next
  assume "disk w f = Some (H5 h5) \<and> disk w' f = Some (H5 h5') \<and>
          map_of h5 m = Some g \<and> map_of h5' m = Some g' \<and> mset g' = mset g \<and>
          list_all (\<lambda>(k, sh). shard_aligned (if u then ''VX'' else ''V'') sh) g \<and>
          distinct (stored_refs g)"
  then have a: "disk w f = Some (H5 h5)" "disk w' f = Some (H5 h5')"
      "map_of h5 m = Some g" "map_of h5' m = Some g'" "mset g' = mset g"
      "list_all (\<lambda>(k, sh). shard_aligned (if u then ''VX'' else ''V'') sh) g"
      "distinct (stored_refs g)"
    by simp_all
  have "assemble nsrt h5 m u = assemble nsrt' h5' m u"
    using nok nok' a(3-7) by (rule assemble_perm)
  then show "fst (load_document_vectors nsrt f m u w) = fst (load_document_vectors nsrt' f m u w')"
    using a(1,2) by (simp add: load_document_vectors_fst)
qed

text \<open>
  The three files read as \<open>a, b, c\<close> by a stable sort with all cores, and as \<open>c, a, b\<close>
  by a tie-reversing sort on one core; the two shards read as \<open>a, b\<close> and as \<open>b, a\<close>.
\<close>

theorem order_independence_witness:
  "load_ORG_data argsort_stable True [''a.csv'', ''b.csv'', ''c.csv''] csv_files (Some [''x''])
     = load_ORG_data argsort_reversing False [''c.csv'', ''a.csv'', ''b.csv''] csv_files (Some [''x'']) \<and>
   \<not> isl (load_ORG_data argsort_reversing False [''c.csv'', ''a.csv'', ''b.csv''] csv_files (Some [''x''])) \<and>
   fst (load_document_vectors argsort_stable ''score.h5'' ''unigram'' False
          (score_world [(''a'', shard_a), (''b'', shard_b)]))
     = fst (load_document_vectors argsort_reversing ''score.h5'' ''unigram'' False
          (score_world [(''b'', shard_b), (''a'', shard_a)])) \<and>
   fst (load_document_vectors argsort_reversing ''score.h5'' ''unigram'' False
          (score_world [(''b'', shard_b), (''a'', shard_a)]))
     = Inr \<lparr>docv = Array2 2 [[10, 11], [20, 21], [30, 31]], refs = [1, 2, 3]\<rparr>"
proof -
  let ?F = "[''a.csv'', ''b.csv'', ''c.csv'']" and ?F' = "[''c.csv'', ''a.csv'', ''b.csv'']"
  let ?g = "[(''a'', shard_a), (''b'', shard_b)]" and ?g' = "[(''b'', shard_b), (''a'', shard_a)]"
  let ?df = "\<lparr>df_columns = [''x'', ''_ref''], df_index_name = Some ''_ref'',
            df_rows = map keyed
              [[''_ref'' \<mapsto> 1, ''x'' \<mapsto> 10], [''_ref'' \<mapsto> 2, ''x'' \<mapsto> 20],
               [''_ref'' \<mapsto> 3, ''x'' \<mapsto> 30], [''_ref'' \<mapsto> 4, ''x'' \<mapsto> (40::int)]]\<rparr>"
  have h1: "mset ?F' = mset ?F \<and>
      distinct (map ref_of (stored_records csv_files (read_columns (Some [''x''])) ?F))"
    by (simp add: loader_example_simps)
  have h2: "disk (score_world ?g) ''score.h5'' = Some (H5 [(''unigram'', ?g)]) \<and>
      disk (score_world ?g') ''score.h5'' = Some (H5 [(''unigram'', ?g')]) \<and>
      map_of [(''unigram'', ?g)] ''unigram'' = Some ?g \<and>
      map_of [(''unigram'', ?g')] ''unigram'' = Some ?g' \<and> mset ?g' = mset ?g \<and>
      list_all (\<lambda>(k, sh). shard_aligned (if False then ''VX'' else ''V'') sh) ?g \<and>
      distinct (stored_refs ?g)"
    by (simp add: score_world_def shard_aligned_def stored_refs_def example_simps)
  note t = order_independence [OF argsort_ok_stable argsort_ok_reversing argsort_ok_stable
      argsort_ok_reversing, where F = ?F and F' = ?F' and fs = csv_files and extra = "Some [''x'']"
      and par = True and par' = False and df = ?df
      and w = "score_world ?g" and w' = "score_world ?g'" and f = "''score.h5''"
      and ?h5.0 = "[(''unigram'', ?g)]" and h5' = "[(''unigram'', ?g')]" and m = "''unigram''"
      and g = ?g and g' = ?g' and u = False]
  have l: "load_ORG_data argsort_stable True ?F csv_files (Some [''x'']) = Inr ?df"
    by (rule three_files_stable)
  have c: "table_columns csv_files (read_columns (Some [''x''])) ?F'
      = table_columns csv_files (read_columns (Some [''x''])) ?F"
    by (simp add: table_columns_def file_columns_def csv_files_def csv_a_def csv_c_def read_columns_def)
  from t h1 l obtain df' where
    "load_ORG_data argsort_reversing False ?F' csv_files (Some [''x'']) = Inr df'"
    "table_columns csv_files (read_columns (Some [''x''])) ?F'
       = table_columns csv_files (read_columns (Some [''x''])) ?F \<longrightarrow> df' = ?df"
    by blast
  with c have l': "load_ORG_data argsort_reversing False ?F' csv_files (Some [''x'']) = Inr ?df"
    by (simp only:)
  from t h2 have v: "fst (load_document_vectors argsort_stable ''score.h5'' ''unigram'' False (score_world ?g))
     = fst (load_document_vectors argsort_reversing ''score.h5'' ''unigram'' False (score_world ?g'))"
    by blast
  have e: "fst (load_document_vectors argsort_stable ''score.h5'' ''unigram'' False (score_world ?g))
     = Inr \<lparr>docv = Array2 2 [[10, 11], [20, 21], [30, 31]], refs = [1, 2, 3]\<rparr>"
    by (simp add: example_simps)
  from l l' v e show ?thesis by simp
qed

text \<open>
  C2 as stated promises identical output for every permutation of the files. Two files
  with the columns \<open>_ref\<close>, \<open>x\<close>, \<open>y\<close> and distinct reference ids, one with the
  header \<^verbatim>\<open>_ref,x,y\<close>, the other with \<^verbatim>\<open>_ref,y,x\<close>: read in the one order the
  table has the columns \<open>x, y, _ref\<close>, read in the other it has \<open>y, x, _ref\<close>, with
  the same rows.
\<close>

theorem column_order_counterexample:
  "mset [''yx.csv'', ''xy.csv''] = mset [''xy.csv'', ''yx.csv''] \<and>
   distinct (map ref_of (stored_records csv_column_files (read_columns (Some [''x'', ''y'']))
                [''xy.csv'', ''yx.csv''])) \<and>
   load_ORG_data argsort_stable False [''xy.csv'', ''yx.csv''] csv_column_files (Some [''x'', ''y''])
     = Inr \<lparr>df_columns = [''x'', ''y'', ''_ref''], df_index_name = Some ''_ref'',
            df_rows = map keyed [[''_ref'' \<mapsto> 1, ''x'' \<mapsto> 10, ''y'' \<mapsto> 11],
                                 [''_ref'' \<mapsto> 2, ''x'' \<mapsto> 20, ''y'' \<mapsto> 21]]\<rparr> \<and>
   load_ORG_data argsort_stable False [''yx.csv'', ''xy.csv''] csv_column_files (Some [''x'', ''y''])
     = Inr \<lparr>df_columns = [''y'', ''x'', ''_ref''], df_index_name = Some ''_ref'',
            df_rows = map keyed [[''_ref'' \<mapsto> 1, ''x'' \<mapsto> 10, ''y'' \<mapsto> 11],
                                 [''_ref'' \<mapsto> 2, ''x'' \<mapsto> 20, ''y'' \<mapsto> 21]]\<rparr> \<and>
   load_ORG_data argsort_stable False [''xy.csv'', ''yx.csv''] csv_column_files (Some [''x'', ''y''])
     \<noteq> load_ORG_data argsort_stable False [''yx.csv'', ''xy.csv''] csv_column_files (Some [''x'', ''y''])"
proof -
  let ?F = "[''xy.csv'', ''yx.csv'']" and ?F' = "[''yx.csv'', ''xy.csv'']"
  let ?e = "Some [''x'', ''y'']"
  let ?r1 = "[''_ref'' \<mapsto> 1, ''x'' \<mapsto> 10, ''y'' \<mapsto> (11::int)]"
  let ?r2 = "[''_ref'' \<mapsto> 2, ''x'' \<mapsto> 20, ''y'' \<mapsto> (21::int)]"
  have r: "\<And>a b c. [''_ref'' \<mapsto> a, ''x'' \<mapsto> b, ''y'' \<mapsto> c] |` {''_ref'', ''x'', ''y''}
      = [''_ref'' \<mapsto> a, ''x'' \<mapsto> b, ''y'' \<mapsto> (c::int)]"
    by (auto simp: restrict_map_def fun_eq_iff)
  have f: "list_all (file_ok csv_column_files (read_columns ?e)) ?F"
    and f': "list_all (file_ok csv_column_files (read_columns ?e)) ?F'"
    by (simp_all add: file_ok_def read_columns_def csv_column_files_def csv_xy_def csv_yx_def)
  have s: "stored_records csv_column_files (read_columns ?e) ?F = [?r1, ?r2]"
    and s': "stored_records csv_column_files (read_columns ?e) ?F' = [?r2, ?r1]"
    by (simp_all add: csv_column_files_def csv_xy_def csv_yx_def read_columns_def
        file_records_def stored_records_def r)
  have t: "sorted_records argsort_stable [?r1, ?r2] = [?r1, ?r2]"
    and t': "sorted_records argsort_stable [?r2, ?r1] = [?r1, ?r2]"
    by (simp_all add: sorted_records_def ref_of_def argsort_stable_def upt_rec)
  have c: "table_columns csv_column_files (read_columns ?e) ?F = [''x'', ''y'', ''_ref'']"
    and c': "table_columns csv_column_files (read_columns ?e) ?F' = [''y'', ''x'', ''_ref'']"
    by (simp_all add: table_columns_def file_columns_def csv_column_files_def csv_xy_def
        csv_yx_def read_columns_def)
  have l: "load_ORG_data argsort_stable False ?F csv_column_files ?e
      = Inr \<lparr>df_columns = [''x'', ''y'', ''_ref''], df_index_name = Some ''_ref'',
             df_rows = map keyed [?r1, ?r2]\<rparr>"
    unfolding load_ORG_data_ok [OF argsort_ok_stable f, simplified] s t c ..
  have l': "load_ORG_data argsort_stable False ?F' csv_column_files ?e
      = Inr \<lparr>df_columns = [''y'', ''x'', ''_ref''], df_index_name = Some ''_ref'',
             df_rows = map keyed [?r1, ?r2]\<rparr>"
    unfolding load_ORG_data_ok [OF argsort_ok_stable f', simplified] s' t' c' ..
  have m: "mset ?F' = mset ?F" by simp
  have d: "distinct (map ref_of (stored_records csv_column_files (read_columns ?e) ?F))"
    unfolding s by (simp add: ref_of_def)
  have n: "load_ORG_data argsort_stable False ?F csv_column_files ?e
      \<noteq> load_ORG_data argsort_stable False ?F' csv_column_files ?e"
    unfolding l l' by simp
  from m d l l' n show ?thesis by (simp only: simp_thms)
qed

text \<open>
  C3. Under any sort that keeps numpy's promise, a table that \<^verbatim>\<open>load_ORG_data\<close>
  returns holds exactly the records of the listed files (each cut down to the columns
  read), its rows are in ascending order of \<^verbatim>\<open>_ref\<close> (rows with an empty
  \<^verbatim>\<open>_ref\<close> cell, if any, last), its index is named \<^verbatim>\<open>_ref\<close>, and \<^verbatim>\<open>_ref\<close>
  is also a column whose cell in every row equals the row's index label. In particular,
  for the files \<open>a.csv\<close> (\<^verbatim>\<open>_ref = [3, 1]\<close>), \<open>b.csv\<close> (\<^verbatim>\<open>[2]\<close>) and \<open>c.csv\<close>
  (\<^verbatim>\<open>[4]\<close>) the rows come back as \<^verbatim>\<open>_ref = [1, 2, 3, 4]\<close>, each with the payload
  it was stored with (\<open>x\<close> is ten times \<^verbatim>\<open>_ref\<close> in the example files).
\<close>

theorem table_sorted_by_ref:
  fixes fs :: "string \<rightharpoonup> 'a::linorder csv"
  assumes ok: "argsort_ok srt" and ok': "argsort_ok (isrt :: int list \<Rightarrow> nat list)"
  shows "(load_ORG_data srt par F fs extra = Inr df \<longrightarrow>
            mset (map snd (df_rows df)) = mset (stored_records fs (read_columns extra) F) \<and>
            ascending_nan_last (map fst (df_rows df)) \<and>
            df_index_name df = Some ''_ref'' \<and>
            ''_ref'' \<in> set (df_columns df) \<and>
            list_all (\<lambda>(i, r). r ''_ref'' = i) (df_rows df)) \<and>
         (\<exists>df3. load_ORG_data isrt ipar [''a.csv'', ''b.csv'', ''c.csv''] csv_files (Some [''x''])
                   = Inr df3 \<and>
                map (\<lambda>(i, r). (i, r ''_ref'', r ''x'')) (df_rows df3)
                   = [(Some 1, Some 1, Some 10), (Some 2, Some 2, Some 20),
                      (Some 3, Some 3, Some 30), (Some 4, Some 4, Some 40)])"
proof (intro conjI impI)
  assume r: "load_ORG_data srt par F fs extra = Inr df"
  let ?S = "sorted_records srt (stored_records fs (read_columns extra) F)"
  from load_ORG_data_Inr(3) [OF ok r]
  have d: "df_rows df = map keyed ?S" "df_index_name df = Some ''_ref''"
    "df_columns df = table_columns fs (read_columns extra) F"
    by simp_all
  have c: "set (table_columns fs (read_columns extra) F) = set (read_columns extra)"
    using load_ORG_data_Inr(2,1) [OF ok r] ref_in_read_columns by (rule table_columns_set)
  show "mset (map snd (df_rows df)) = mset (stored_records fs (read_columns extra) F)"
    unfolding d keyed_rows using ok by (rule sorted_records_mset)
  show "ascending_nan_last (map fst (df_rows df))"
    unfolding d keyed_rows using ok by (rule sorted_records_ascending)
  show "df_index_name df = Some ''_ref''" by (rule d)
  show "''_ref'' \<in> set (df_columns df)" unfolding d c by (rule ref_in_read_columns)
  show "list_all (\<lambda>(i, r). r ''_ref'' = i) (df_rows df)" unfolding d by (rule keyed_rows)
next
  show "\<exists>df3. load_ORG_data isrt ipar [''a.csv'', ''b.csv'', ''c.csv''] csv_files (Some [''x''])
                   = Inr df3 \<and>
                map (\<lambda>(i, r). (i, r ''_ref'', r ''x'')) (df_rows df3)
                   = [(Some 1, Some 1, Some 10), (Some 2, Some 2, Some 20),
                      (Some 3, Some 3, Some 30), (Some 4, Some 4, Some 40)]"
    unfolding three_files_any_sort [OF ok'] by (simp add: keyed_def ref_of_def)
qed

text \<open>Three other files, two of them holding the reference id 7, under a tie-reversing sort.\<close>

theorem table_sorted_by_ref_witness:
  "mset (map snd (df_rows (projr (load_ORG_data argsort_reversing False [''q.csv'', ''a.csv'', ''p.csv'']
            csv_files (Some [''x''])))))
     = mset (stored_records csv_files [''_ref'', ''x''] [''q.csv'', ''a.csv'', ''p.csv'']) \<and>
   map (\<lambda>(i, r). (i, r ''_ref'', r ''x''))
     (df_rows (projr (load_ORG_data argsort_reversing False [''q.csv'', ''a.csv'', ''p.csv'']
            csv_files (Some [''x'']))))
     = [(Some 1, Some 1, Some 10), (Some 3, Some 3, Some 30),
        (Some 7, Some 7, Some 71), (Some 7, Some 7, Some 72)] \<and>
   ascending_nan_last [Some 1, Some 3, Some 7, Some (7::int)]"
proof -
  let ?F = "[''q.csv'', ''a.csv'', ''p.csv'']"
  let ?df = "\<lparr>df_columns = [''x'', ''_ref''], df_index_name = Some ''_ref'',
            df_rows = map keyed
              [[''_ref'' \<mapsto> 1, ''x'' \<mapsto> 10], [''_ref'' \<mapsto> 3, ''x'' \<mapsto> 30],
               [''_ref'' \<mapsto> 7, ''x'' \<mapsto> 71], [''_ref'' \<mapsto> 7, ''x'' \<mapsto> (72::int)]]\<rparr>"
  have f: "list_all (file_ok csv_files (read_columns (Some [''x'']))) ?F"
    by (simp add: loader_example_simps)
  have r: "\<And>a b. [''_ref'' \<mapsto> a, ''x'' \<mapsto> b] |` {''_ref'', ''x''} = [''_ref'' \<mapsto> a, ''x'' \<mapsto> (b::int)]"
    by (auto simp: restrict_map_def fun_eq_iff)
  have s: "stored_records csv_files (read_columns (Some [''x''])) ?F
    = [[''_ref'' \<mapsto> 7, ''x'' \<mapsto> 72], [''_ref'' \<mapsto> 3, ''x'' \<mapsto> 30],
       [''_ref'' \<mapsto> 1, ''x'' \<mapsto> 10], [''_ref'' \<mapsto> 7, ''x'' \<mapsto> 71]]"
    by (simp add: csv_files_def csv_a_def csv_p_def csv_q_def read_columns_def file_records_def
        stored_records_def r)
  have t: "sorted_records argsort_reversing
      [[''_ref'' \<mapsto> 7, ''x'' \<mapsto> 72], [''_ref'' \<mapsto> 3, ''x'' \<mapsto> 30],
       [''_ref'' \<mapsto> 1, ''x'' \<mapsto> 10], [''_ref'' \<mapsto> 7, ''x'' \<mapsto> (71::int)]]
     = [[''_ref'' \<mapsto> 1, ''x'' \<mapsto> 10], [''_ref'' \<mapsto> 3, ''x'' \<mapsto> 30],
               [''_ref'' \<mapsto> 7, ''x'' \<mapsto> 71], [''_ref'' \<mapsto> 7, ''x'' \<mapsto> 72]]"
    by (simp add: sorted_records_def ref_of_def argsort_reversing_def upt_rec)
  have c: "table_columns csv_files (read_columns (Some [''x''])) ?F = [''x'', ''_ref'']"
    by (simp add: table_columns_def file_columns_def csv_files_def csv_q_def read_columns_def)
  have l: "load_ORG_data argsort_reversing False ?F csv_files (Some [''x'']) = Inr ?df"
    unfolding load_ORG_data_ok [OF argsort_ok_reversing f, simplified] s t c ..
  from table_sorted_by_ref [OF argsort_ok_reversing argsort_ok_stable,
      of False ?F csv_files "Some [''x'']" ?df] l
  have "mset (map snd (df_rows ?df)) = mset (stored_records csv_files (read_columns (Some [''x''])) ?F)
      \<and> ascending_nan_last (map fst (df_rows ?df))"
    by blast
  then show ?thesis unfolding l by (simp add: keyed_def ref_of_def read_columns_def)
qed


text \<open>
  C4. \<^verbatim>\<open>load_h5_file\<close> on an existing HDF5 file leaves the file system as it was and
  no handle open (the file is opened with mode \<^verbatim>\<open>'r'\<close> inside a \<^verbatim>\<open>with\<close>
  block). Called without names on a file whose top-level members are all datasets (the
  function's docstring assumes no nesting), it returns every one of them. Called with
  names that are all datasets of the file, it returns exactly those. Called with names of
  which one is absent, it raises the \<^verbatim>\<open>ValueError\<close> that names an absent key and the
  path (the spec's \<open>DatasetNotFound\<close>), and the log shows the open and the close with no
  read in between: nothing was read, of the present names either.
\<close>

theorem load_h5_file_all_or_nothing:
  assumes d: "disk w f = Some (H5 h5)"
  shows "disk (snd (load_h5_file f args w)) = disk w \<and>
         handles (snd (load_h5_file f args w)) = handles w \<and>
         (list_all (\<lambda>(name, n). case n of Dataset a \<Rightarrow> True | Group g \<Rightarrow> False) h5 \<longrightarrow>
            load_h5_file f [] w =
              (Inr (dataset_of h5),
               w\<lparr>log := log w @ [Opened f Mode_r] @ map (Read f) (h5_keys h5) @ [Closed f Mode_r]\<rparr>)) \<and>
         (args \<noteq> [] \<and> list_all (\<lambda>key. dataset_of h5 key \<noteq> None) args \<longrightarrow>
            load_h5_file f args w =
              (Inr (dataset_of h5 |` set args),
               w\<lparr>log := log w @ [Opened f Mode_r] @ map (Read f) args @ [Closed f Mode_r]\<rparr>)) \<and>
         (args \<noteq> [] \<and> \<not> list_all (h5_contains h5) args \<longrightarrow>
            (\<exists>key. key \<in> set args \<and> \<not> h5_contains h5 key \<and>
               load_h5_file f args w =
                 (Inl (ValueError (Not_found_in key f)),
                  w\<lparr>log := log w @ [Opened f Mode_r, Closed f Mode_r]\<rparr>)))"
proof (intro conjI impI)
  show "disk (snd (load_h5_file f args w)) = disk w"
    and "handles (snd (load_h5_file f args w)) = handles w"
    using load_h5_file_frame [of f args w] by simp_all
next
  assume a: "list_all (\<lambda>(name, n). case n of Dataset a \<Rightarrow> True | Group g \<Rightarrow> False) h5"
  have p: "\<forall>key\<in>set (h5_keys h5). dataset_of h5 key \<noteq> None"
  proof
    fix key assume "key \<in> set (h5_keys h5)"
    then obtain n where n: "map_of h5 key = Some n"
      unfolding h5_keys_def by (metis map_of_eq_None_iff not_None_eq set_map)
    then have "(key, n) \<in> set h5" by (rule map_of_SomeD)
    with a obtain x where "n = Dataset x" by (cases n) (auto simp: list_all_iff)
    with n show "dataset_of h5 key \<noteq> None" by (simp add: dataset_of_def)
  qed
  have e: "(\<lambda>k. if k \<in> set (h5_keys h5) then dataset_of h5 k else None) = dataset_of h5"
  proof
    fix k
    have "k \<notin> set (h5_keys h5) \<Longrightarrow> dataset_of h5 k = None"
      unfolding h5_keys_def dataset_of_def by (simp add: map_of_eq_None_iff [THEN iffD2])
    then show "(if k \<in> set (h5_keys h5) then dataset_of h5 k else None) = dataset_of h5 k"
      by simp
  qed
  show "load_h5_file f [] w =
     (Inr (dataset_of h5),
      w\<lparr>log := log w @ [Opened f Mode_r] @ map (Read f) (h5_keys h5) @ [Closed f Mode_r]\<rparr>)"
    using load_h5_file_present [OF d _ p, of "[]"] unfolding e by simp
next
  assume a: "args \<noteq> [] \<and> list_all (\<lambda>key. dataset_of h5 key \<noteq> None) args"
  then have p: "\<forall>key\<in>set args. dataset_of h5 key \<noteq> None" by (simp add: list_all_iff)
  have e: "(\<lambda>k. if k \<in> set args then dataset_of h5 k else None) = dataset_of h5 |` set args"
    by (auto simp: restrict_map_def)
  show "load_h5_file f args w =
     (Inr (dataset_of h5 |` set args),
      w\<lparr>log := log w @ [Opened f Mode_r] @ map (Read f) args @ [Closed f Mode_r]\<rparr>)"
    using load_h5_file_present [OF d _ p, of args] a unfolding e by simp
next
  assume a: "args \<noteq> [] \<and> \<not> list_all (h5_contains h5) args"
  then obtain key where fi: "find (\<lambda>key. \<not> h5_contains h5 key) args = Some key"
    by (cases "find (\<lambda>key. \<not> h5_contains h5 key) args") (auto simp: find_None_iff list_all_iff)
  then have "key \<in> set args" "\<not> h5_contains h5 key"
    by (auto simp: find_Some_iff)
  moreover have "load_h5_file f args w =
     (Inl (ValueError (Not_found_in key f)), w\<lparr>log := log w @ [Opened f Mode_r, Closed f Mode_r]\<rparr>)"
    using d _ fi by (rule load_h5_file_missing) (simp add: a)
  ultimately show "\<exists>key. key \<in> set args \<and> \<not> h5_contains h5 key \<and>
               load_h5_file f args w =
                 (Inl (ValueError (Not_found_in key f)),
                  w\<lparr>log := log w @ [Opened f Mode_r, Closed f Mode_r]\<rparr>)"
    by blast
qed

text \<open>
  A file with the datasets \<open>meta_centroids\<close> and \<open>meta_labels\<close>: asking for
  \<open>meta_centroids\<close> and the absent \<open>labels\<close> reads nothing and names \<open>labels\<close>;
  asking for nothing in particular returns both datasets.
\<close>

theorem load_h5_file_all_or_nothing_witness:
  "load_h5_file ''centroids.h5'' [''meta_centroids'', ''labels'']
       (h5_world [(''meta_centroids'', Dataset 1), (''meta_labels'', Dataset 2)])
     = (Inl (ValueError (Not_found_in ''labels'' ''centroids.h5'')),
        (h5_world [(''meta_centroids'', Dataset 1), (''meta_labels'', Dataset 2)])
          \<lparr>log := [Opened ''centroids.h5'' Mode_r, Closed ''centroids.h5'' Mode_r]\<rparr>) \<and>
   (\<exists>data. load_h5_file ''centroids.h5'' []
       (h5_world [(''meta_centroids'', Dataset 1), (''meta_labels'', Dataset 2)])
     = (Inr data,
        (h5_world [(''meta_centroids'', Dataset 1), (''meta_labels'', Dataset 2)])
          \<lparr>log := [Opened ''centroids.h5'' Mode_r, Read ''centroids.h5'' ''meta_centroids'',
                   Read ''centroids.h5'' ''meta_labels'', Closed ''centroids.h5'' Mode_r]\<rparr>) \<and>
     map data [''meta_centroids'', ''meta_labels'', ''labels''] = [Some 1, Some 2, None])"
proof -
  let ?h5 = "[(''meta_centroids'', Dataset 1), (''meta_labels'', Dataset (2::int))]"
  have d: "disk (h5_world ?h5) ''centroids.h5'' = Some (H5 ?h5)"
    by (simp add: h5_world_def)
  note t = load_h5_file_all_or_nothing [OF d]
  have a: "[''meta_centroids'', ''labels''] \<noteq> [] \<and>
      \<not> list_all (h5_contains ?h5) [''meta_centroids'', ''labels'']"
    by (simp add: h5_contains_def h5_keys_def)
  from t [of "[''meta_centroids'', ''labels'']"] a obtain key where
    k: "key \<in> set [''meta_centroids'', ''labels'']" "\<not> h5_contains ?h5 key"
    and l: "load_h5_file ''centroids.h5'' [''meta_centroids'', ''labels''] (h5_world ?h5) =
                 (Inl (ValueError (Not_found_in key ''centroids.h5'')),
                  (h5_world ?h5)\<lparr>log := log (h5_world ?h5) @ [Opened ''centroids.h5'' Mode_r, Closed ''centroids.h5'' Mode_r]\<rparr>)"
    by blast
  from k have "key = ''labels''" by (auto simp: h5_contains_def h5_keys_def)
  with l have 1: "load_h5_file ''centroids.h5'' [''meta_centroids'', ''labels''] (h5_world ?h5)
     = (Inl (ValueError (Not_found_in ''labels'' ''centroids.h5'')),
        (h5_world ?h5)\<lparr>log := [Opened ''centroids.h5'' Mode_r, Closed ''centroids.h5'' Mode_r]\<rparr>)"
    by (simp add: h5_world_def)
  have b: "list_all (\<lambda>(name, n). case n of Dataset a \<Rightarrow> True | Group g \<Rightarrow> False) ?h5"
    by simp
  from t [of "[]"] b have 2: "load_h5_file ''centroids.h5'' [] (h5_world ?h5) =
              (Inr (dataset_of ?h5),
               (h5_world ?h5)\<lparr>log := [Opened ''centroids.h5'' Mode_r, Read ''centroids.h5'' ''meta_centroids'',
                   Read ''centroids.h5'' ''meta_labels'', Closed ''centroids.h5'' Mode_r]\<rparr>)"
    by (simp add: h5_world_def h5_keys_def)
  have 3: "map (dataset_of ?h5) [''meta_centroids'', ''meta_labels'', ''labels''] = [Some 1, Some 2, None]"
    by (simp add: dataset_of_def)
  show ?thesis
  proof (rule conjI)
    show "load_h5_file ''centroids.h5'' [''meta_centroids'', ''labels''] (h5_world ?h5)
     = (Inl (ValueError (Not_found_in ''labels'' ''centroids.h5'')),
        (h5_world ?h5)\<lparr>log := [Opened ''centroids.h5'' Mode_r, Closed ''centroids.h5'' Mode_r]\<rparr>)"
      by (rule 1)
    show "\<exists>data. load_h5_file ''centroids.h5'' [] (h5_world ?h5)
     = (Inr data,
        (h5_world ?h5)\<lparr>log := [Opened ''centroids.h5'' Mode_r, Read ''centroids.h5'' ''meta_centroids'',
                   Read ''centroids.h5'' ''meta_labels'', Closed ''centroids.h5'' Mode_r]\<rparr>) \<and>
     map data [''meta_centroids'', ''meta_labels'', ''labels''] = [Some 1, Some 2, None]"
    proof (intro exI conjI)
      show "load_h5_file ''centroids.h5'' [] (h5_world ?h5) =
              (Inr (dataset_of ?h5),
               (h5_world ?h5)\<lparr>log := [Opened ''centroids.h5'' Mode_r, Read ''centroids.h5'' ''meta_centroids'',
                   Read ''centroids.h5'' ''meta_labels'', Closed ''centroids.h5'' Mode_r]\<rparr>)"
        by (rule 2)
      show "map (dataset_of ?h5) [''meta_centroids'', ''meta_labels'', ''labels''] = [Some 1, Some 2, None]"
        by (rule 3)
    qed
  qed
qed


text \<open>
  C5. Whatever the group, the name, the array and the compression: \<^verbatim>\<open>save_h5\<close>
  succeeds, and reading the name back from the group yields the array written. After two
  writes to the same name the second array is read back, the group has exactly one member
  of that name, which holds the second array, and the group is the one a single write of
  the second array would have left: nothing of the first write remains.
\<close>

theorem save_then_read:
  "(\<exists>h5'. save_h5 h5 col data c = Inr h5' \<and> h5_read h5' col = Inr data) \<and>
   (save_h5 h5 col data1 c1 = Inr h5_1 \<and> save_h5 h5_1 col data2 c2 = Inr h5_2 \<longrightarrow>
      h5_read h5_2 col = Inr data2 \<and>
      filter (\<lambda>(name, n). name = col) h5_2 = [(col, Dataset data2)] \<and>
      save_h5 h5 col data2 c2 = Inr h5_2)"
proof (intro conjI impI)
  show "\<exists>h5'. save_h5 h5 col data c = Inr h5' \<and> h5_read h5' col = Inr data"
    by (intro exI conjI) (rule save_h5_char, rule h5_read_saved)
next
  assume a: "save_h5 h5 col data1 c1 = Inr h5_1 \<and> save_h5 h5_1 col data2 c2 = Inr h5_2"
  let ?rest = "filter (\<lambda>(name, n). name \<noteq> col) h5"
  from a have 1: "h5_1 = ?rest @ [(col, Dataset data1)]"
    unfolding save_h5_char by simp
  from a have "h5_2 = filter (\<lambda>(name, n). name \<noteq> col) h5_1 @ [(col, Dataset data2)]"
    unfolding save_h5_char by simp
  moreover have "filter (\<lambda>(name, n). name \<noteq> col) (?rest @ [(col, Dataset data1)]) = ?rest"
    by (induction h5) auto
  ultimately have 2: "h5_2 = ?rest @ [(col, Dataset data2)]"
    unfolding 1 by (simp only:)
  show "h5_read h5_2 col = Inr data2" unfolding 2 by (rule h5_read_saved)
  have "filter (\<lambda>(name, n). name = col) ?rest = []"
    by (auto simp: filter_empty_conv)
  then show "filter (\<lambda>(name, n). name = col) h5_2 = [(col, Dataset data2)]"
    unfolding 2 by simp
  show "save_h5 h5 col data2 c2 = Inr h5_2" unfolding 2 by (rule save_h5_char)
qed

text \<open>A group holding \<open>V\<close> and \<open>_ref\<close>, with \<open>V\<close> written twice.\<close>

theorem save_then_read_witness:
  "save_h5 [(''V'', Dataset 1), (''_ref'', Dataset 2)] ''V'' (5::int) ''gzip''
     = Inr [(''_ref'', Dataset 2), (''V'', Dataset 5)] \<and>
   save_h5 [(''_ref'', Dataset 2), (''V'', Dataset 5)] ''V'' (6::int) ''gzip''
     = Inr [(''_ref'', Dataset 2), (''V'', Dataset 6)] \<and>
   h5_read [(''_ref'', Dataset 2), (''V'', Dataset 6)] ''V'' = Inr (6::int) \<and>
   filter (\<lambda>(name, n). name = ''V'') [(''_ref'', Dataset 2), (''V'', Dataset (6::int))]
     = [(''V'', Dataset 6)]"
proof -
  have 1: "save_h5 [(''V'', Dataset 1), (''_ref'', Dataset 2)] ''V'' (5::int) ''gzip''
     = Inr [(''_ref'', Dataset 2), (''V'', Dataset 5)]"
    by (simp add: save_h5_def h5_contains_def h5_keys_def h5_delete_def h5_create_dataset_def)
  have 2: "save_h5 [(''_ref'', Dataset 2), (''V'', Dataset 5)] ''V'' (6::int) ''gzip''
     = Inr [(''_ref'', Dataset 2), (''V'', Dataset 6)]"
    by (simp add: save_h5_def h5_contains_def h5_keys_def h5_delete_def h5_create_dataset_def)
  note t = save_then_read [where ?h5.0 = "[(''V'', Dataset 1), (''_ref'', Dataset (2::int))]"
      and col = "''V''" and ?data1.0 = 5 and ?c1.0 = "''gzip''"
      and ?h5_1.0 = "[(''_ref'', Dataset 2), (''V'', Dataset 5)]"
      and ?data2.0 = 6 and ?c2.0 = "''gzip''"
      and ?h5_2.0 = "[(''_ref'', Dataset 2), (''V'', Dataset 6)]"]
  from t 1 2 have 3: "h5_read [(''_ref'', Dataset 2), (''V'', Dataset 6)] ''V'' = Inr (6::int)"
    and 4: "filter (\<lambda>(name, n). name = ''V'') [(''_ref'', Dataset 2), (''V'', Dataset (6::int))]
        = [(''V'', Dataset 6)]"
    by (simp_all only: simp_thms)
  from 1 2 3 4 show ?thesis by (simp only: simp_thms)
qed


text \<open>
  C6. After stacking, \<^verbatim>\<open>load_document_vectors\<close> compares the number of rows of the
  stacked matrix with the size of the stacked reference array: whenever both stacks
  exist and the two numbers differ, the call fails with the \<^verbatim>\<open>AssertionError\<close> of
  \<^verbatim>\<open>assert(X.shape[0] == _refs.size)\<close> (the spec's \<open>ShapeMismatch\<close>); and on every
  successful call the returned reference array has as many elements as the returned
  matrix has rows.
\<close>

theorem row_count_check:
  "(disk w f = Some (H5 h5) \<and> map_of h5 m = Some g \<and> hstack_refs g = Inr refs0 \<and>
    vstack_vectors (if u then ''VX'' else ''V'') g = Inr X \<and> nrows X \<noteq> length refs0
      \<longrightarrow> fst (load_document_vectors srt f m u w) = Inl AssertionError) \<and>
   (fst (load_document_vectors srt f m u w) = Inr res
      \<longrightarrow> length (refs res) = nrows (docv res))"
proof (intro conjI impI)
  assume a: "disk w f = Some (H5 h5) \<and> map_of h5 m = Some g \<and> hstack_refs g = Inr refs0 \<and>
    vstack_vectors (if u then ''VX'' else ''V'') g = Inr X \<and> nrows X \<noteq> length refs0"
  then have "assemble srt h5 m u = Inl AssertionError"
    by (simp add: assemble_def)
  with a show "fst (load_document_vectors srt f m u w) = Inl AssertionError"
    by (simp add: load_document_vectors_fst)
next
  assume "fst (load_document_vectors srt f m u w) = Inr res"
  then obtain h5 where "assemble srt h5 m u = Inr res"
    by (auto dest: load_document_vectors_Inr)
  then show "length (refs res) = nrows (docv res)"
    by (elim assemble_Inr) (simp add: nrows_def np_take_length)
qed

text \<open>
  A shard with two reference ids and one vector row stops the load; the two aligned
  shards load, three reference ids against three rows.
\<close>

theorem row_count_check_witness:
  "hstack_refs [(''a'', shard_a), (''s'', shard_short)] = Inr [3, 1, 5, 4] \<and>
   vstack_vectors ''V'' [(''a'', shard_a), (''s'', shard_short)]
     = Inr (Array2 2 [[30, 31], [10, 11], [50, 51]]) \<and>
   fst (load_document_vectors argsort_stable ''score.h5'' ''unigram'' False
          (score_world [(''a'', shard_a), (''s'', shard_short)])) = Inl AssertionError \<and>
   fst (load_document_vectors argsort_stable ''score.h5'' ''unigram'' False
          (score_world [(''a'', shard_a), (''b'', shard_b)]))
     = Inr \<lparr>docv = Array2 2 [[10, 11], [20, 21], [30, 31]], refs = [1, 2, 3]\<rparr> \<and>
   length [1, 2, 3 :: int] = nrows (Array2 2 [[10, 11], [20, 21], [30, 31 :: int]])"
proof -
  let ?bad = "[(''a'', shard_a), (''s'', shard_short)]"
  let ?good = "[(''a'', shard_a), (''b'', shard_b)]"
  let ?res = "\<lparr>docv = Array2 2 [[10, 11], [20, 21], [30, 31 :: int]], refs = [1, 2, 3 :: int]\<rparr>"
  have r: "hstack_refs ?bad = Inr [3, 1, 5, 4]"
    by (simp add: example_simps)
  have v: "vstack_vectors ''V'' ?bad = Inr (Array2 2 [[30, 31], [10, 11], [50, 51]])"
    by (simp add: example_simps)
  have ok: "fst (load_document_vectors argsort_stable ''score.h5'' ''unigram'' False
          (score_world ?good)) = Inr ?res"
    by (simp add: example_simps)
  have bad: "fst (load_document_vectors argsort_stable ''score.h5'' ''unigram'' False
          (score_world ?bad)) = Inl AssertionError"
    using row_count_check [where w = "score_world ?bad" and f = "''score.h5''"
        and ?h5.0 = "[(''unigram'', ?bad)]" and m = "''unigram''" and g = ?bad
        and ?refs0.0 = "[3, 1, 5, 4]" and u = False
        and X = "Array2 2 [[30, 31], [10, 11], [50, 51]]" and srt = argsort_stable] r v
    by (simp add: score_world_def nrows_def)
  have len: "length (refs ?res) = nrows (docv ?res)"
    using row_count_check [where w = "score_world ?good" and f = "''score.h5''"
        and m = "''unigram''" and u = False and srt = argsort_stable and res = ?res] ok
    by blast
  from r v ok bad len show ?thesis by simp
qed

text \<open>
  C7. Whatever the file and the requested columns: when a requested column is not in the
  file's header, \<^verbatim>\<open>simple_CSV_read\<close> fails with the \<^verbatim>\<open>ValueError\<close> whose message
  carries the requested columns and the columns of the file (the spec's
  \<open>SchemaMismatch\<close>). When it succeeds, the frame has exactly the requested columns, all of
  them columns of the file and in the order of the file's header, and its rows are the
  file's records in the file's order, each with the cells of the requested columns and no
  others: no requested column is dropped, no cell moves to another column or row.
\<close>

theorem schema_mismatch_reported:
  "(fs f = Some c \<and> \<not> set cols \<subseteq> set (csv_header c)
      \<longrightarrow> simple_CSV_read fs f cols
            = Inl (ValueError (Columns_do_not_match cols (csv_header c)))) \<and>
   (simple_CSV_read fs f cols = Inr dfx
      \<longrightarrow> set (df_columns dfx) = set cols \<and>
          (\<exists>c. fs f = Some c \<and> set cols \<subseteq> set (csv_header c) \<and>
               df_columns dfx = filter (\<lambda>col. col \<in> set cols) (csv_header c) \<and>
               map snd (df_rows dfx) = map (\<lambda>r. r |` set cols) (csv_records c)))"
proof (intro conjI impI)
  assume "fs f = Some c \<and> \<not> set cols \<subseteq> set (csv_header c)"
  then show "simple_CSV_read fs f cols = Inl (ValueError (Columns_do_not_match cols (csv_header c)))"
    by (auto simp: simple_CSV_read_char list_all_iff)
next
  assume a: "simple_CSV_read fs f cols = Inr dfx"
  then obtain c where c: "fs f = Some c" and h: "list_all (\<lambda>col. col \<in> set (csv_header c)) cols"
    and d: "dfx = \<lparr>df_columns = filter (\<lambda>col. col \<in> set cols) (csv_header c),
                     df_index_name = None,
                     df_rows = enumerate 0 (map (\<lambda>r. r |` set cols) (csv_records c))\<rparr>"
    by (cases "fs f") (auto simp: simple_CSV_read_char split: if_splits)
  have s: "set cols \<subseteq> set (csv_header c)" using h by (auto simp: list_all_iff)
  from d s show "set (df_columns dfx) = set cols" by auto
  have o: "df_columns dfx = filter (\<lambda>col. col \<in> set cols) (csv_header c)"
    using d by simp
  have "map snd (df_rows dfx) = map (\<lambda>r. r |` set cols) (csv_records c)"
    using d by simp
  with s o show "\<exists>c. fs f = Some c \<and> set cols \<subseteq> set (csv_header c) \<and>
               df_columns dfx = filter (\<lambda>col. col \<in> set cols) (csv_header c) \<and>
               map snd (df_rows dfx) = map (\<lambda>r. r |` set cols) (csv_records c)"
    using c by blast
qed

text \<open>
  File \<open>a.csv\<close> has the columns \<open>_ref\<close> and \<open>x\<close>: asking for \<open>y\<close> fails with both
  lists in the message, asking for \<open>x\<close> alone yields the \<open>x\<close> cells in file order.
\<close>

theorem schema_mismatch_reported_witness:
  "simple_CSV_read csv_files ''a.csv'' [''_ref'', ''y'']
     = Inl (ValueError (Columns_do_not_match [''_ref'', ''y''] [''_ref'', ''x''])) \<and>
   (\<exists>dfx. simple_CSV_read csv_files ''a.csv'' [''x''] = Inr dfx \<and>
      df_columns dfx = [''x''] \<and>
      map (\<lambda>(i, r). (i, r ''_ref'', r ''x'')) (df_rows dfx) = [(0, None, Some 30), (1, None, Some 10)])"
proof -
  have 1: "csv_files ''a.csv'' = Some csv_a \<and> \<not> set [''_ref'', ''y''] \<subseteq> set (csv_header csv_a)"
    by (simp add: csv_files_def csv_a_def)
  have 2: "simple_CSV_read csv_files ''a.csv'' [''x'']
      = Inr \<lparr>df_columns = [''x''], df_index_name = None,
             df_rows = [(0, [''_ref'' \<mapsto> 3, ''x'' \<mapsto> 30] |` {''x''}),
                        (1, [''_ref'' \<mapsto> 1, ''x'' \<mapsto> 10] |` {''x''})]\<rparr>"
    by (simp add: simple_CSV_read_char csv_files_def csv_a_def enumerate_eq_zip upt_rec)
  from schema_mismatch_reported [of csv_files "''a.csv''" csv_a "[''_ref'', ''y'']"] 1
  have "simple_CSV_read csv_files ''a.csv'' [''_ref'', ''y'']
     = Inl (ValueError (Columns_do_not_match [''_ref'', ''y''] [''_ref'', ''x'']))"
    by (simp add: csv_a_def)
  moreover from schema_mismatch_reported [of csv_files "''a.csv''" _ "[''x'']"] 2
  have "set (df_columns \<lparr>df_columns = [''x''], df_index_name = None,
             df_rows = [(0::nat, [''_ref'' \<mapsto> 3::int, ''x'' \<mapsto> 30] |` {''x''}),
                        (1, [''_ref'' \<mapsto> 1, ''x'' \<mapsto> 10] |` {''x''})]\<rparr>) = set [''x'']"
    by blast
  ultimately show ?thesis using 2 by (simp add: restrict_map_def)
qed

text \<open>
  C9 (amended). The read paths are scoped: \<^verbatim>\<open>load_h5_file\<close>,
  \<^verbatim>\<open>get_score_methods\<close> and \<^verbatim>\<open>load_document_vectors\<close> open the file in a
  \<^verbatim>\<open>with\<close> block, and whether they return or raise, the handles open afterwards are
  those open before. \<^verbatim>\<open>touch_h5\<close> leaves no handle behind when it cannot open the
  file; when it succeeds, the handle it opened (mode \<^verbatim>\<open>'w'\<close> for a new file,
  \<^verbatim>\<open>'r+'\<close> for an existing one) is still open on return, and so it is when
  \<^verbatim>\<open>get_h5save_object\<close> returns a group: both hand the open store to their caller,
  who has to close it.
\<close>

theorem scoped_reads_open_writes:
  "handles (snd (load_h5_file f args w)) = handles w \<and>
   handles (snd (get_score_methods f w1)) = handles w1 \<and>
   handles (snd (load_document_vectors srt f m u w2)) = handles w2 \<and>
   (isl (fst (touch_h5 f w3)) \<longrightarrow> handles (snd (touch_h5 f w3)) = handles w3) \<and>
   (\<not> isl (fst (touch_h5 f w3)) \<longrightarrow>
      handles (snd (touch_h5 f w3))
        = (f, if disk w3 f = None then Mode_w else Mode_r_plus) # handles w3) \<and>
   (\<not> isl (fst (get_h5save_object f m w4)) \<longrightarrow>
      handles (snd (get_h5save_object f m w4))
        = (f, if disk w4 f = None then Mode_w else Mode_r_plus) # handles w4)"
proof (intro conjI impI)
  show "handles (snd (load_h5_file f args w)) = handles w"
    using load_h5_file_frame [of f args w] by simp
  show "handles (snd (get_score_methods f w1)) = handles w1"
    by (rule get_score_methods_frame)
  show "handles (snd (load_document_vectors srt f m u w2)) = handles w2"
    by (rule load_document_vectors_frame)
  show "handles (snd (touch_h5 f w3)) = handles w3" if "isl (fst (touch_h5 f w3))"
    using that touch_h5_frame [of f w3] by simp
  show "handles (snd (touch_h5 f w3))
        = (f, if disk w3 f = None then Mode_w else Mode_r_plus) # handles w3"
    if "\<not> isl (fst (touch_h5 f w3))"
    using that touch_h5_frame [of f w3] by (simp only: if_False)
  show "handles (snd (get_h5save_object f m w4))
        = (f, if disk w4 f = None then Mode_w else Mode_r_plus) # handles w4"
    if "\<not> isl (fst (get_h5save_object f m w4))"
    using that by (rule get_h5save_object_frame)
qed

text \<open>
  A read that fails on a missing name closes the file; \<^verbatim>\<open>touch_h5\<close> on a path that
  is no HDF5 file opens nothing; on a free path it returns with the new file open, and so
  does \<^verbatim>\<open>get_h5save_object\<close>.
\<close>

theorem scoped_reads_open_writes_witness:
  "handles (snd (load_h5_file ''centroids.h5'' [''labels'']
      (h5_world [(''meta_centroids'', Dataset 1)]))) = [] \<and>
   isl (fst (load_h5_file ''centroids.h5'' [''labels'']
      (h5_world [(''meta_centroids'', Dataset 1)]))) \<and>
   isl (fst (touch_h5 ''notes.txt'' (empty_world\<lparr>disk := [''notes.txt'' \<mapsto> NotH5]\<rparr>))) \<and>
   handles (snd (touch_h5 ''notes.txt'' (empty_world\<lparr>disk := [''notes.txt'' \<mapsto> NotH5]\<rparr>))) = [] \<and>
   \<not> isl (fst (touch_h5 ''db.h5'' empty_world)) \<and>
   handles (snd (touch_h5 ''db.h5'' empty_world)) = [(''db.h5'', Mode_w)] \<and>
   \<not> isl (fst (get_h5save_object ''db.h5'' ''unigram'' empty_world)) \<and>
   handles (snd (get_h5save_object ''db.h5'' ''unigram'' empty_world)) = [(''db.h5'', Mode_w)]"
proof -
  let ?w = "h5_world [(''meta_centroids'', Dataset 1)]"
  let ?n = "empty_world\<lparr>disk := [''notes.txt'' \<mapsto> NotH5]\<rparr>"
  note c1 = scoped_reads_open_writes [THEN conjunct1]
  note c4 = scoped_reads_open_writes [THEN conjunct2, THEN conjunct2, THEN conjunct2,
      THEN conjunct1, rule_format]
  note c5 = scoped_reads_open_writes [THEN conjunct2, THEN conjunct2, THEN conjunct2,
      THEN conjunct2, THEN conjunct1, rule_format]
  note c6 = scoped_reads_open_writes [THEN conjunct2, THEN conjunct2, THEN conjunct2,
      THEN conjunct2, THEN conjunct2, rule_format]
  have 1: "handles (snd (load_h5_file ''centroids.h5'' [''labels''] ?w)) = []"
    using c1 [of "''centroids.h5''" "[''labels'']" ?w] by (simp add: h5_world_def)
  have 2: "isl (fst (load_h5_file ''centroids.h5'' [''labels''] ?w))"
    by (simp add: load_h5_file_def h5py_File_def h5_world_def h5_contains_def h5_keys_def)
  have 3: "isl (fst (touch_h5 ''notes.txt'' ?n))"
    by (simp add: touch_h5_def h5py_File_def empty_world_def)
  from c4 [OF 3] have 4: "handles (snd (touch_h5 ''notes.txt'' ?n)) = []"
    by (simp add: empty_world_def)
  have 5: "\<not> isl (fst (touch_h5 ''db.h5'' empty_world))"
    by (simp add: touch_h5_def h5py_File_def empty_world_def)
  from c5 [OF 5] have 6: "handles (snd (touch_h5 ''db.h5'' empty_world)) = [(''db.h5'', Mode_w)]"
    by (simp add: empty_world_def)
  have 7: "\<not> isl (fst (get_h5save_object ''db.h5'' ''unigram'' empty_world))"
    by (simp add: get_h5save_object_def touch_h5_def h5py_File_def h5_require_group_def empty_world_def)
  from c6 [OF 7] have 8: "handles (snd (get_h5save_object ''db.h5'' ''unigram'' empty_world)) = [(''db.h5'', Mode_w)]"
    by (simp add: empty_world_def)
  from 1 2 3 4 5 6 7 8 show ?thesis by (simp only: simp_thms)
qed

text \<open>
  C9 as stated wants every open matched by a close before the routine returns, the
  open-for-write path included. \<^verbatim>\<open>touch_h5\<close> returns the open file and
  \<^verbatim>\<open>get_h5save_object\<close> a group of it: starting with no handle open, each ends with
  the handle of \<open>db.h5\<close> open and no close in the log.
\<close>

theorem touch_h5_leaves_open_counterexample:
  "touch_h5 ''db.h5'' empty_world
     = (Inr [], \<lparr>disk = [''db.h5'' \<mapsto> H5 []], handles = [(''db.h5'', Mode_w)],
                 log = [Opened ''db.h5'' Mode_w]\<rparr>) \<and>
   get_h5save_object ''db.h5'' ''unigram'' empty_world
     = (Inr [], \<lparr>disk = [''db.h5'' \<mapsto> H5 [(''unigram'', Group [])]],
                 handles = [(''db.h5'', Mode_w)], log = [Opened ''db.h5'' Mode_w]\<rparr>) \<and>
   handles empty_world = []"
  by (simp add: touch_h5_def get_h5save_object_def h5py_File_def h5_require_group_def empty_world_def)


text \<open>
  C10. \<^verbatim>\<open>load_ORG_data\<close> reads \<^verbatim>\<open>_ref\<close> from every file whatever
  \<^verbatim>\<open>extra_columns\<close> is: a returned table has the columns \<^verbatim>\<open>_ref\<close> plus the extra
  columns, is indexed by \<^verbatim>\<open>_ref\<close>, and carries in every row's \<^verbatim>\<open>_ref\<close> cell the
  row's index label; and a listed file without a \<^verbatim>\<open>_ref\<close> column makes the call
  fail, whatever \<^verbatim>\<open>extra_columns\<close> is. With \<^verbatim>\<open>extra_columns\<close> omitted
  (\<^verbatim>\<open>None\<close>) the only column of the returned table is \<^verbatim>\<open>_ref\<close>, and no row has
  any other cell.
\<close>

theorem ref_column_always_read:
  fixes fs :: "string \<rightharpoonup> 'a::linorder csv"
  assumes ok: "argsort_ok srt"
  shows "(load_ORG_data srt par F fs extra = Inr df \<longrightarrow>
            set (df_columns df) = insert ''_ref'' (case extra of None \<Rightarrow> {} | Some ec \<Rightarrow> set ec) \<and>
            df_index_name df = Some ''_ref'' \<and>
            list_all (\<lambda>(i, r). r ''_ref'' = i) (df_rows df)) \<and>
         (f \<in> set F \<and> fs f = Some c \<and> ''_ref'' \<notin> set (csv_header c) \<longrightarrow>
            isl (load_ORG_data srt par F fs extra)) \<and>
         (load_ORG_data srt par F fs None = Inr df \<longrightarrow>
            df_columns df = [''_ref''] \<and>
            list_all (\<lambda>(i, r). dom r \<subseteq> {''_ref''}) (df_rows df))"
proof (intro conjI impI)
  assume r: "load_ORG_data srt par F fs extra = Inr df"
  note d = load_ORG_data_Inr(3) [OF ok r]
  have "set (table_columns fs (read_columns extra) F) = set (read_columns extra)"
    using load_ORG_data_Inr(2,1) [OF ok r] ref_in_read_columns by (rule table_columns_set)
  then show "set (df_columns df) = insert ''_ref'' (case extra of None \<Rightarrow> {} | Some ec \<Rightarrow> set ec)"
    unfolding d by (simp add: read_columns_set)
  show "df_index_name df = Some ''_ref''" unfolding d by simp
  show "list_all (\<lambda>(i, r). r ''_ref'' = i) (df_rows df)"
    unfolding d by (simp add: keyed_rows)
next
  assume a: "f \<in> set F \<and> fs f = Some c \<and> ''_ref'' \<notin> set (csv_header c)"
  then have "\<not> file_ok fs (read_columns extra) f"
    using ref_in_read_columns [of extra] by (auto simp: file_ok_def list_all_iff)
  with a have "\<not> list_all (file_ok fs (read_columns extra)) F"
    by (auto simp: list_all_iff)
  from load_ORG_data_bad [OF this, of srt par]
  show "isl (load_ORG_data srt par F fs extra)" by auto
next
  assume r: "load_ORG_data srt par F fs None = Inr df"
  note d = load_ORG_data_Inr(3) [OF ok r]
  from load_ORG_data_Inr(2) [OF ok r] obtain f0 rest where F: "F = f0 # rest"
    by (cases F) auto
  have "filter (\<lambda>c. c \<noteq> ''_ref'') (file_columns fs (read_columns None) f0) = []"
    by (cases "fs f0") (auto simp: file_columns_def read_columns_def filter_empty_conv)
  then show "df_columns df = [''_ref'']" unfolding d by (simp add: table_columns_def F)
  let ?R = "stored_records fs (read_columns None) F"
  have "set (sorted_records srt ?R) = set ?R"
    using sorted_records_mset [OF ok, of ?R] by (rule mset_eq_setD)
  then have "\<And>r. r \<in> set (sorted_records srt ?R) \<Longrightarrow> dom r \<subseteq> {''_ref''}"
    using stored_records_dom [of _ fs "read_columns None" F] by (simp add: read_columns_def)
  then show "list_all (\<lambda>(i, r). dom r \<subseteq> {''_ref''}) (df_rows df)"
    unfolding d by (simp add: list_all_iff keyed_def)
qed

text \<open>
  Files \<open>a.csv\<close> and \<open>b.csv\<close> loaded without extra columns; and a file \<open>n.csv\<close> with
  the single column \<open>x\<close>, asked for \<open>x\<close> only.
\<close>

theorem ref_column_always_read_witness:
  "(\<exists>df. load_ORG_data argsort_stable True [''a.csv'', ''b.csv''] csv_files None = Inr df \<and>
      df_columns df = [''_ref''] \<and> df_index_name df = Some ''_ref'' \<and>
      map (\<lambda>(i, r). (i, r ''_ref'', r ''x'')) (df_rows df)
        = [(Some 1, Some 1, None), (Some 2, Some 2, None), (Some 3, Some 3, None)]) \<and>
   isl (load_ORG_data argsort_stable True [''a.csv'', ''n.csv'']
          (csv_files(''n.csv'' \<mapsto> \<lparr>csv_header = [''x''], csv_records = [[''x'' \<mapsto> 5]]\<rparr>))
          (Some [''x'']))"
proof -
  let ?F = "[''a.csv'', ''b.csv'']"
  let ?df = "\<lparr>df_columns = [''_ref''], df_index_name = Some ''_ref'',
            df_rows = map keyed [[''_ref'' \<mapsto> 1], [''_ref'' \<mapsto> 2], [''_ref'' \<mapsto> (3::int)]]\<rparr>"
  let ?n = "\<lparr>csv_header = [''x''], csv_records = [[''x'' \<mapsto> (5::int)]]\<rparr>"
  have f: "list_all (file_ok csv_files (read_columns None)) ?F"
    by (simp add: loader_example_simps)
  have r: "\<And>a b. [''_ref'' \<mapsto> a, ''x'' \<mapsto> b] |` {''_ref''} = [''_ref'' \<mapsto> (a::int)]"
    by (auto simp: restrict_map_def fun_eq_iff)
  have s: "stored_records csv_files (read_columns None) ?F
    = [[''_ref'' \<mapsto> 3], [''_ref'' \<mapsto> 1], [''_ref'' \<mapsto> 2]]"
    by (simp add: csv_files_def csv_a_def csv_b_def read_columns_def file_records_def
        stored_records_def r)
  have t: "sorted_records argsort_stable [[''_ref'' \<mapsto> 3], [''_ref'' \<mapsto> 1], [''_ref'' \<mapsto> (2::int)]]
     = [[''_ref'' \<mapsto> 1], [''_ref'' \<mapsto> 2], [''_ref'' \<mapsto> 3]]"
    by (simp add: sorted_records_def ref_of_def argsort_stable_def upt_rec)
  have c: "table_columns csv_files (read_columns None) ?F = [''_ref'']"
    by (simp add: table_columns_def file_columns_def csv_files_def csv_a_def read_columns_def)
  have l: "load_ORG_data argsort_stable True ?F csv_files None = Inr ?df"
    unfolding load_ORG_data_ok [OF argsort_ok_stable f, simplified] s t c ..
  have n: "''n.csv'' \<in> set [''a.csv'', ''n.csv''] \<and> (csv_files(''n.csv'' \<mapsto> ?n)) ''n.csv'' = Some ?n
      \<and> ''_ref'' \<notin> set (csv_header ?n)"
    by simp
  from ref_column_always_read [OF argsort_ok_stable, where par = True and F = ?F and fs = csv_files
      and extra = None and df = ?df] l
  have 1: "df_columns ?df = [''_ref''] \<and> df_index_name ?df = Some ''_ref''"
    by simp
  from ref_column_always_read [OF argsort_ok_stable, where f = "''n.csv''"
      and F = "[''a.csv'', ''n.csv'']" and fs = "csv_files(''n.csv'' \<mapsto> ?n)" and c = ?n
      and par = True and extra = "Some [''x'']"] n
  have 2: "isl (load_ORG_data argsort_stable True [''a.csv'', ''n.csv''] (csv_files(''n.csv'' \<mapsto> ?n)) (Some [''x'']))"
    by blast
  from l 1 2 show ?thesis by (simp add: keyed_def ref_of_def)
qed


end
